theory Spec2Isabelle
  imports Main
begin

section \<open>Data model of the plotters\<close>

text \<open>
  The embedding follows \<^verbatim>\<open>src/Python/plotters/plotter.py\<close> and
  \<^verbatim>\<open>src/Python/plotters/impedance_plotter.py\<close>.

  Cells of the plot buffer are \<open>'a option\<close>: \<open>None\<close> is numpy's \<open>nan\<close> (the
  white-out / not-yet-written value), \<open>Some x\<close> a sample that was delivered. The counters of
  the plotter (sample rate, window size, buffer size, samples seen, downsampling factor) are
  never negative in the source and are natural numbers here; the absolute indices of the
  rendered window can be negative during warm-up and are integers.
\<close>

datatype error = ValueError | IndexError | UnboundLocalError

text \<open>The \<^verbatim>\<open>sd\<close> object taken from the queue: a flat list of samples and its two dimensions.\<close>

record 'a sample_data =
  num_samples_per_sample_set :: nat
  num_sample_sets :: nat
  samples :: "'a list"

text \<open>The fields of \<^verbatim>\<open>SamplingThread\<close> that \<^verbatim>\<open>update_samples\<close> reads and writes.\<close>

record 'a plotter =
  sample_rate :: nat
  window_size :: nat
  buffer_size :: nat
  window_buffer :: "'a option list list"
  samples_seen :: nat
  downsampling_factor :: nat

text \<open>What one pass of the sampling loop does that is visible outside of the plotter state.\<close>

datatype 'a event = Print | Emit "'a option list list" | Sleep_ms nat

section \<open>numpy helpers\<close>

text \<open>
  \<^verbatim>\<open>np.reshape(xs, (r, c), order='F')\<close>: column-major, so element \<open>[i, j]\<close> of the result is
  \<open>xs[i + j * r]\<close>; a length that does not fit raises \<^verbatim>\<open>ValueError\<close>.
\<close>

definition reshape_F :: "'a list \<Rightarrow> nat \<Rightarrow> nat \<Rightarrow> error + 'a list list" where
  "reshape_F xs r c =
     (if length xs = r * c
      then Inr (map (\<lambda>i. map (\<lambda>j. xs ! (i + j * r)) [0..<c]) [0..<r])
      else Inl ValueError)"

text \<open>Integer \<^verbatim>\<open>%\<close> of numpy: floored, and \<open>0\<close> for a zero modulus.\<close>

definition np_mod :: "int \<Rightarrow> int \<Rightarrow> int" where
  "np_mod a m = (if m = 0 then 0 else a mod m)"

text \<open>The slices \<^verbatim>\<open>xs[:-w]\<close> and \<^verbatim>\<open>xs[-w:]\<close>; for \<open>w = 0\<close> they are \<^verbatim>\<open>xs[:0]\<close> and \<^verbatim>\<open>xs[0:]\<close>.\<close>

definition slice_until_neg :: "'b list \<Rightarrow> nat \<Rightarrow> 'b list" where
  "slice_until_neg xs w = (if w = 0 then [] else take (length xs - w) xs)"

definition slice_from_neg :: "'b list \<Rightarrow> nat \<Rightarrow> 'b list" where
  "slice_from_neg xs w = (if w = 0 then xs else drop (length xs - w) xs)"

text \<open>
  One row of \<^verbatim>\<open>buf[:, idx] = vals\<close>: the assignments happen in the order of \<open>idx\<close>, so for
  a repeated index the last value stays.
\<close>

fun assign_row :: "'b list \<Rightarrow> nat list \<Rightarrow> 'b list \<Rightarrow> 'b list" where
  "assign_row row (i # idx) (v # vals) = assign_row (row[i := v]) idx vals"
| "assign_row row _ _ = row"

text \<open>
  \<^verbatim>\<open>buf[:, idx] = vals\<close> for \<open>vals\<close> of shape \<open>(r, m)\<close>: an index beyond the columns raises
  \<^verbatim>\<open>IndexError\<close>; the shape must broadcast to \<open>(rows of buf, length idx)\<close>, that is, \<open>r\<close> is
  the number of rows or 1 and \<open>m\<close> is the number of indices or 1, else \<^verbatim>\<open>ValueError\<close>.
\<close>

definition index_error :: "'b list list \<Rightarrow> nat list \<Rightarrow> bool" where
  "index_error buf idx = list_ex (\<lambda>row. list_ex (\<lambda>i. length row \<le> i) idx) buf"

definition broadcast_row :: "'b list list \<Rightarrow> nat \<Rightarrow> nat \<Rightarrow> nat \<Rightarrow> nat \<Rightarrow> 'b list" where
  "broadcast_row vals r m n c =
     (let row = vals ! (if r = 1 then 0 else c)
      in if m = n then row else replicate n (row ! 0))"

definition setitem_cols ::
  "'b list list \<Rightarrow> nat list \<Rightarrow> nat \<Rightarrow> nat \<Rightarrow> 'b list list \<Rightarrow> error + 'b list list" where
  "setitem_cols buf idx r m vals =
     (if index_error buf idx then Inl IndexError
      else if (r = length buf \<or> r = 1) \<and> (m = length idx \<or> m = 1)
      then Inr (map (\<lambda>c. assign_row (buf ! c) idx (broadcast_row vals r m (length idx) c))
                  [0..<length buf])
      else Inl ValueError)"

text \<open>\<^verbatim>\<open>buf[:, idx] = np.nan\<close>: a scalar broadcasts to every shape.\<close>

definition setitem_nan :: "'a option list list \<Rightarrow> nat list \<Rightarrow> error + 'a option list list" where
  "setitem_nan buf idx =
     (if index_error buf idx then Inl IndexError
      else Inr (map (\<lambda>row. assign_row row idx (replicate (length idx) None)) buf))"

text \<open>\<^verbatim>\<open>buf[:, idx]\<close>: the columns \<open>idx\<close> of every row.\<close>

definition getitem_cols :: "'b list list \<Rightarrow> nat list \<Rightarrow> error + 'b list list" where
  "getitem_cols buf idx =
     (if index_error buf idx then Inl IndexError
      else Inr (map (\<lambda>row. map (\<lambda>i. row ! i) idx) buf))"

text \<open>\<^verbatim>\<open>np.hstack((a, b))\<close> of two arrays with the same rows.\<close>

definition hstack :: "'b list list \<Rightarrow> 'b list list \<Rightarrow> 'b list list" where
  "hstack a b = map (\<lambda>(x, y). x @ y) (zip a b)"

text \<open>\<^verbatim>\<open>np.where(cond)[0][0]\<close>: the first position that satisfies the condition, or
  \<^verbatim>\<open>IndexError\<close> when there is none.\<close>

fun first_index :: "('b \<Rightarrow> bool) \<Rightarrow> 'b list \<Rightarrow> nat option" where
  "first_index P [] = None"
| "first_index P (x # xs) =
     (if P x then Some 0 else map_option Suc (first_index P xs))"

text \<open>\<^verbatim>\<open>row[::d]\<close>: positions \<open>0, d, 2d, \<dots>\<close>; a zero step raises \<^verbatim>\<open>ValueError\<close>.\<close>

definition stride :: "nat \<Rightarrow> 'b list \<Rightarrow> 'b list" where
  "stride d row = map (\<lambda>i. row ! (i * d)) [0..<(length row + d - 1) div d]"

definition slice_step :: "'b list list \<Rightarrow> nat \<Rightarrow> error + 'b list list" where
  "slice_step a d = (if d = 0 then Inl ValueError else Inr (map (stride d) a))"

section \<open>RealTimePlot.initUI and the time-range buttons\<close>

text \<open>
  \<^verbatim>\<open>initUI\<close>: window of 5 s, buffer of 10 s filled with \<open>nan\<close>, no samples seen,
  \<^verbatim>\<open>_downsampling_factor = int(sample_rate / 500)\<close>. \<^verbatim>\<open>SamplingThread.__init__\<close> copies
  these fields.
\<close>

definition initUI :: "nat \<Rightarrow> nat \<Rightarrow> 'a plotter" where
  "initUI rate active_channels =
     \<lparr> sample_rate = rate, window_size = 5, buffer_size = 10,
       window_buffer = replicate active_channels (replicate (rate * 10) None),
       samples_seen = 0, downsampling_factor = rate div 500 \<rparr>"

text \<open>
  The GUI keeps its own \<^verbatim>\<open>window_size\<close> and \<^verbatim>\<open>_buffer_size\<close>; both buttons change the
  GUI's and the worker's window size together, under a guard on the GUI's.
\<close>

record 'a gui =
  gui_window_size :: nat
  gui_buffer_size :: nat
  worker :: "'a plotter"

definition setup_gui :: "nat \<Rightarrow> nat \<Rightarrow> 'a gui" where
  "setup_gui rate active_channels =
     \<lparr> gui_window_size = 5, gui_buffer_size = 10, worker = initUI rate active_channels \<rparr>"

definition decrease_time_range :: "'a gui \<Rightarrow> 'a gui" where
  "decrease_time_range g =
     (if gui_window_size g > 1
      then g\<lparr> gui_window_size := gui_window_size g - 1,
              worker := (worker g)\<lparr> window_size := window_size (worker g) - 1 \<rparr> \<rparr>
      else g)"

definition increase_time_range :: "'a gui \<Rightarrow> 'a gui" where
  "increase_time_range g =
     (if gui_window_size g < gui_buffer_size g
      then g\<lparr> gui_window_size := gui_window_size g + 1,
              worker := (worker g)\<lparr> window_size := window_size (worker g) + 1 \<rparr> \<rparr>
      else g)"

section \<open>SamplingThread.update_samples\<close>

text \<open>
  \<^verbatim>\<open>white_out = int(np.floor(window_size * sample_rate * 0.04))\<close>. The product is an
  integer \<open>n\<close>, and \<open>floor (n * 0.04)\<close> is \<open>n * 4 div 100\<close>.
\<close>

definition white_out :: "'a plotter \<Rightarrow> nat" where
  "white_out st = (window_size st * sample_rate st * 4) div 100"

text \<open>Lines 690 to 702: reshape the block, write it and the white-out, count the samples.\<close>

definition write_block :: "'a sample_data \<Rightarrow> 'a plotter \<Rightarrow> error + 'a plotter" where
  "write_block sd st =
     (case reshape_F (samples sd) (num_samples_per_sample_set sd) (num_sample_sets sd) of
        Inl e \<Rightarrow> Inl e
      | Inr smp \<Rightarrow>
          let k = num_sample_sets sd;
              w = white_out st;
              plot_indices =
                map (\<lambda>i. nat (np_mod (int (samples_seen st + i))
                                 (int (sample_rate st * buffer_size st))))
                  [0..<k + w]
          in (case setitem_cols (window_buffer st) (slice_until_neg plot_indices w)
                     (num_samples_per_sample_set sd) k (map (map Some) smp) of
                Inl e \<Rightarrow> Inl e
              | Inr b1 \<Rightarrow>
                  (case setitem_nan b1 (slice_from_neg plot_indices w) of
                     Inl e \<Rightarrow> Inl e
                   | Inr b2 \<Rightarrow>
                       Inr (st\<lparr> window_buffer := b2, samples_seen := samples_seen st + k \<rparr>))))"

text \<open>Lines 711 to 727: the window of indices, the split, the two segments, the decimation.\<close>

definition window_indices :: "'a plotter \<Rightarrow> int list" where
  "window_indices st =
     [int (samples_seen st + white_out st) - int (window_size st * sample_rate st)
      .. int (samples_seen st + white_out st) - 1]"

definition render_slice :: "'a plotter \<Rightarrow> error + 'a option list list" where
  "render_slice st =
     (let indices = window_indices st;
          scroll_idx = map (\<lambda>i. nat (np_mod i (int (sample_rate st * buffer_size st)))) indices
      in (case first_index (\<lambda>i. np_mod i (int (sample_rate st * window_size st)) = 1) indices of
            None \<Rightarrow> Inl IndexError
          | Some split_idx \<Rightarrow>
              (case getitem_cols (window_buffer st) (drop split_idx scroll_idx) of
                 Inl e \<Rightarrow> Inl e
               | Inr late \<Rightarrow>
                   (case getitem_cols (window_buffer st) (take split_idx scroll_idx) of
                      Inl e \<Rightarrow> Inl e
                    | Inr early \<Rightarrow> slice_step (hstack late early) (downsampling_factor st)))))"

text \<open>The update of the lag flag from the observed queue size (lines 677 to 682).\<close>

definition lag_update :: "bool \<Rightarrow> nat \<Rightarrow> bool" where
  "lag_update lag qsize = (if qsize > 10 then True else if qsize < 6 then False else lag)"

text \<open>
  One pass of the inner loop body, for the observed queue size and the block that
  \<^verbatim>\<open>get()\<close> returned: the new flag, the new state, and the events in their order. The
  source computes \<^verbatim>\<open>white_out\<close> once per pass and uses it for the write and for the
  rendering; the write leaves the window size as it is, so both functions compute the same
  value here.
\<close>

definition update_samples_body ::
  "bool \<Rightarrow> nat \<Rightarrow> 'a sample_data \<Rightarrow> 'a plotter \<Rightarrow> error + (bool \<times> 'a plotter \<times> 'a event list)" where
  "update_samples_body lag qsize sd st =
     (let lag' = lag_update lag qsize;
          pr = (if qsize > 10 then [Print] else [])
      in (case write_block sd st of
            Inl e \<Rightarrow> Inl e
          | Inr st' \<Rightarrow>
              (if lag' then Inr (lag', st', pr @ [Sleep_ms 1])
               else (case render_slice st' of
                       Inl e \<Rightarrow> Inl e
                     | Inr plot_data \<Rightarrow> Inr (lag', st', pr @ [Emit plot_data, Sleep_ms 10])))))"

text \<open>
  The inner \<^verbatim>\<open>while not self.q_sample_sets.empty()\<close> on a queue that nobody fills meanwhile:
  the observed size is the length of what is left. The outer \<^verbatim>\<open>while self.sampling\<close> of
  \<^verbatim>\<open>plotter.py\<close> has nothing after the inner loop, so one pass of the outer loop is one run
  of the inner loop.
\<close>

fun drain ::
  "bool \<Rightarrow> 'a sample_data list \<Rightarrow> 'a plotter \<Rightarrow> error + (bool \<times> 'a plotter \<times> 'a event list)" where
  "drain lag [] st = Inr (lag, st, [])"
| "drain lag (sd # q) st =
     (case update_samples_body lag (length (sd # q)) sd st of
        Inl e \<Rightarrow> Inl e
      | Inr (lag', st', evs) \<Rightarrow>
          (case drain lag' q st' of
             Inl e \<Rightarrow> Inl e
           | Inr (lag'', st'', evs') \<Rightarrow> Inr (lag'', st'', evs @ evs')))"

definition update_samples_pass ::
  "bool \<Rightarrow> 'a sample_data list \<Rightarrow> 'a plotter \<Rightarrow> error + (bool \<times> 'a plotter \<times> 'a event list)" where
  "update_samples_pass lag q st = drain lag q st"

text \<open>Writing a list of blocks, one after the other, stopping at the first error.\<close>

fun write_all :: "'a sample_data list \<Rightarrow> 'a plotter \<Rightarrow> error + 'a plotter" where
  "write_all [] st = Inr st"
| "write_all (sd # q) st =
     (case write_block sd st of Inl e \<Rightarrow> Inl e | Inr st' \<Rightarrow> write_all q st')"

section \<open>The impedance plotter\<close>

text \<open>
  \<^verbatim>\<open>ImpedancePlot._lookup_table\<close>: the colour as its three components. A value that no
  branch takes leaves \<^verbatim>\<open>color_code\<close> unbound, and the \<^verbatim>\<open>return\<close> raises.
\<close>

definition lookup_table :: "int \<Rightarrow> error + (nat \<times> nat \<times> nat)" where
  "lookup_table v =
     (if v < 5 then Inr (0, 255, 0)
      else if v \<ge> 5 \<and> v < 10 then Inr (0, 204, 0)
      else if v \<ge> 10 \<and> v < 30 then Inr (0, 153, 0)
      else if v \<ge> 30 \<and> v < 50 then Inr (0, 102, 0)
      else if v \<ge> 50 \<and> v < 100 then Inr (255, 255, 0)
      else if v \<ge> 100 \<and> v < 200 then Inr (204, 128, 0)
      else if v \<ge> 200 \<and> v < 400 then Inr (255, 0, 0)
      else if v \<ge> 400 \<and> v < 500 then Inr (153, 0, 0)
      else if v = 500 then Inr (102, 66, 33)
      else if v = 5000 then Inr (128, 128, 128)
      else if v = 5100 then Inr (204, 0, 102)
      else if v = 5200 then Inr (0, 0, 179)
      else Inl UnboundLocalError)"

text \<open>
  One pass of the outer loop of the impedance plotter's \<^verbatim>\<open>update_samples\<close> (lines 344 to
  360). For every queued block the \<^verbatim>\<open>for\<close> loop leaves the last sample set of the block in
  \<^verbatim>\<open>sample_set\<close> (a block without sample sets leaves the variable as it was, unbound at
  first), and the values are emitted; after the queue is empty the thread sleeps for a second.
\<close>

datatype imp_event = Emit_values "int list" | Sleep_s nat

definition last_sample_set :: "int list option \<Rightarrow> int sample_data \<Rightarrow> int list option" where
  "last_sample_set sample_set sd =
     (if num_sample_sets sd = 0 then sample_set
      else Some (take (num_samples_per_sample_set sd)
                   (drop ((num_sample_sets sd - 1) * num_samples_per_sample_set sd) (samples sd))))"

fun impedance_drain ::
  "int list option \<Rightarrow> int sample_data list \<Rightarrow> error + (int list option \<times> imp_event list)" where
  "impedance_drain sample_set [] = Inr (sample_set, [])"
| "impedance_drain sample_set (sd # q) =
     (case last_sample_set sample_set sd of
        None \<Rightarrow> Inl UnboundLocalError
      | Some v \<Rightarrow>
          (case impedance_drain (Some v) q of
             Inl e \<Rightarrow> Inl e
           | Inr (s, evs) \<Rightarrow> Inr (s, Emit_values v # evs)))"

definition impedance_pass ::
  "int list option \<Rightarrow> int sample_data list \<Rightarrow> error + (int list option \<times> imp_event list)" where
  "impedance_pass sample_set q =
     (case impedance_drain sample_set q of
        Inl e \<Rightarrow> Inl e
      | Inr (s, evs) \<Rightarrow> Inr (s, evs @ [Sleep_s 1]))"

section \<open>Notions used in the statements\<close>

text \<open>
  The effect of \<^verbatim>\<open>write_block\<close> on one row of the buffer: the samples \<open>ys\<close> of the block go to
  the ring slots \<open>(s + i) mod m\<close> for \<open>i < length ys\<close>, then \<open>nan\<close> goes to the next \<open>w\<close> slots.
\<close>

definition write_row :: "nat \<Rightarrow> nat \<Rightarrow> nat \<Rightarrow> 'a option list \<Rightarrow> 'a list \<Rightarrow> 'a option list" where
  "write_row m s w row ys =
     assign_row
       (assign_row row (map (\<lambda>i. (s + i) mod m) [0..<length ys]) (map Some ys))
       (map (\<lambda>i. (s + i) mod m) [length ys..<length ys + w]) (replicate w None)"

text \<open>Every row of the buffer has \<^verbatim>\<open>sample_rate * _buffer_size\<close> columns, as \<^verbatim>\<open>initUI\<close> makes it.\<close>

definition wf_buffer :: "'a plotter \<Rightarrow> bool" where
  "wf_buffer st = list_all (\<lambda>row. length row = sample_rate st * buffer_size st) (window_buffer st)"

text \<open>Row \<open>c\<close> of the reshaped block: what the block delivers for channel \<open>c\<close>, in its order.\<close>

definition block_row :: "'a sample_data \<Rightarrow> nat \<Rightarrow> 'a list" where
  "block_row sd c =
     map (\<lambda>s. samples sd ! (c + s * num_samples_per_sample_set sd)) [0..<num_sample_sets sd]"

text \<open>All that a list of blocks delivers for channel \<open>c\<close>: position \<open>j\<close> is the sample of
  logical index \<open>j\<close>.\<close>

definition channel_stream :: "'a sample_data list \<Rightarrow> nat \<Rightarrow> 'a list" where
  "channel_stream bs c = concat (map (\<lambda>sd. block_row sd c) bs)"

text \<open>A block has one sample per buffer row in each sample set, a payload of the stated
  length, and is short enough that its samples and the white-out do not lap the ring.\<close>

definition block_fits :: "nat \<Rightarrow> nat \<Rightarrow> nat \<Rightarrow> 'a sample_data \<Rightarrow> bool" where
  "block_fits C w m sd =
     (num_samples_per_sample_set sd = C \<and> length (samples sd) = C * num_sample_sets sd \<and>
      num_sample_sets sd + w \<le> m)"

text \<open>
  What a row of the ring holds after the samples \<open>xs\<close> were written with white-out \<open>w\<close>: the
  samples that were not overwritten since, \<open>nan\<close> in the white-out ahead of the newest sample,
  and \<open>nan\<close> in the slots that no write has reached yet.
\<close>

definition row_inv :: "nat \<Rightarrow> nat \<Rightarrow> 'a list \<Rightarrow> 'a option list \<Rightarrow> bool" where
  "row_inv m w xs row =
     (length row = m \<and>
      (\<forall>j<length xs. length xs + w \<le> j + m \<longrightarrow> row ! (j mod m) = Some (xs ! j)) \<and>
      (\<forall>j. length xs \<le> j \<and> j < length xs + w \<longrightarrow> row ! (j mod m) = None) \<and>
      (\<forall>q<m. length xs + w \<le> q \<longrightarrow> row ! q = None))"

definition tracks :: "'a sample_data list \<Rightarrow> 'a plotter \<Rightarrow> bool" where
  "tracks bs st =
     (samples_seen st = sum_list (map num_sample_sets bs) \<and>
      list_all (\<lambda>c. row_inv (sample_rate st * buffer_size st) (white_out st)
                       (channel_stream bs c) (window_buffer st ! c))
        [0..<length (window_buffer st)])"

definition same_config :: "'a plotter \<Rightarrow> 'a plotter \<Rightarrow> bool" where
  "same_config st st' =
     (sample_rate st' = sample_rate st \<and> window_size st' = window_size st \<and>
      buffer_size st' = buffer_size st \<and> downsampling_factor st' = downsampling_factor st \<and>
      length (window_buffer st') = length (window_buffer st))"

text \<open>The two segments of the window as \<^verbatim>\<open>np.hstack\<close> joins them: from the split to the end,
  then from the start to the split.\<close>

definition sweep_order :: "nat \<Rightarrow> 'b list \<Rightarrow> 'b list" where
  "sweep_order sp xs = drop sp xs @ take sp xs"

text \<open>The position in the window of the one index that is 1 modulo the window length.\<close>

definition split_position :: "'a plotter \<Rightarrow> nat" where
  "split_position st =
     nat ((1 - (int (samples_seen st + white_out st) - int (window_size st * sample_rate st)))
            mod int (window_size st * sample_rate st))"

text \<open>The cell of logical index \<open>j\<close> of a stream \<open>xs\<close>: the sample when it was delivered, \<open>nan\<close>
  before the first sample and after the last.\<close>

definition logical_cell :: "'a list \<Rightarrow> int \<Rightarrow> 'a option" where
  "logical_cell xs j = (if 0 \<le> j \<and> j < int (length xs) then Some (xs ! nat j) else None)"

text \<open>The ring slot whose cell stands at position \<open>q\<close> of the joined segments.\<close>

definition render_slot :: "'a plotter \<Rightarrow> nat \<Rightarrow> nat" where
  "render_slot st q =
     nat ((int (samples_seen st + white_out st) - int (window_size st * sample_rate st)
           + int ((split_position st + q) mod (window_size st * sample_rate st)))
          mod int (sample_rate st * buffer_size st))"

text \<open>The window sizes of the GUI and of the worker agree and lie between 1 and the buffer
  size.\<close>

definition window_ok :: "'a gui \<Rightarrow> bool" where
  "window_ok g =
     (1 \<le> gui_window_size g \<and> gui_window_size g \<le> gui_buffer_size g \<and>
      window_size (worker g) = gui_window_size g \<and> buffer_size (worker g) = gui_buffer_size g)"

text \<open>A block of one channel whose samples are their own logical indices: block \<open>b\<close> of
  \<open>k\<close> samples holds \<open>b * k, \<dots>, b * k + k - 1\<close>.\<close>

definition index_block :: "nat \<Rightarrow> nat \<Rightarrow> nat sample_data" where
  "index_block k b =
     \<lparr> num_samples_per_sample_set = 1, num_sample_sets = k, samples = [b * k..<b * k + k] \<rparr>"

text \<open>
  The sample rates of the device, as \<^verbatim>\<open>examples/example_changing_sample_rate.py\<close> gives them:
  the base sample rate is 4000 Hz or 4096 Hz, and a channel type runs at the base rate divided
  by 1, 2, 4 or 8; other dividers are not possible.
\<close>

definition device_rates :: "nat list" where
  "device_rates = [4000, 2000, 1000, 500, 4096, 2048, 1024, 512]"

text \<open>
  The states of the plotter that the program reaches: the rate is one of the device, the
  downsampling factor is the one \<^verbatim>\<open>initUI\<close> computes from it, the window size is between 1 and
  the buffer size (the two buttons keep it there), and the buffer has the shape that
  \<^verbatim>\<open>initUI\<close> gives it.
\<close>

definition plotter_ok :: "'a plotter \<Rightarrow> bool" where
  "plotter_ok st =
     (sample_rate st \<in> set device_rates \<and>
      downsampling_factor st = sample_rate st div 500 \<and>
      1 \<le> window_size st \<and> window_size st \<le> buffer_size st \<and>
      wf_buffer st)"

section \<open>Lemmas on the numpy helpers\<close>

text \<open>Ranges between numerals stay folded: the proofs below work with their bounds.\<close>

declare upt_rec_numeral [simp del] upto_rec_numeral [simp del]

lemma mod_neq_of_close:
  fixes a b m :: nat
  assumes "a < b" "b - a < m"
  shows "a mod m \<noteq> b mod m"
proof
  assume "a mod m = b mod m"
  then have "m dvd b - a" using assms(1)
    by (metis mod_eq_dvd_iff_nat less_imp_le_nat)
  then show False using assms
    by (simp add: nat_dvd_not_less)
qed

lemma ring_indices_distinct:
  "n \<le> m \<Longrightarrow> distinct (map (\<lambda>i. (s + i) mod m) [0..<n])"
proof -
  assume le: "n \<le> m"
  have "inj_on (\<lambda>i. (s + i) mod m) (set [0..<n])"
  proof (rule inj_onI)
    fix x y assume x: "x \<in> set [0..<n]" and y: "y \<in> set [0..<n]"
      and e: "(s + x) mod m = (s + y) mod m"
    show "x = y"
    proof (rule ccontr)
      assume ne: "x \<noteq> y"
      then consider "x < y" | "y < x" by linarith
      then show False
      proof cases
        case 1
        then have "(s + x) mod m \<noteq> (s + y) mod m"
          using x y le by (intro mod_neq_of_close) auto
        with e show False by simp
      next
        case 2
        then have "(s + y) mod m \<noteq> (s + x) mod m"
          using x y le by (intro mod_neq_of_close) auto
        with e show False by simp
      qed
    qed
  qed
  then show ?thesis by (simp add: distinct_map)
qed

lemma first_index_Some_iff:
  "first_index P xs = Some i \<longleftrightarrow> i < length xs \<and> P (xs ! i) \<and> (\<forall>j<i. \<not> P (xs ! j))"
proof (induction xs arbitrary: i)
  case Nil
  show ?case by simp
next
  case (Cons x xs)
  show ?case
  proof (cases "P x")
    case True
    then show ?thesis by (cases i) auto
  next
    case False
    show ?thesis
    proof (cases i)
      case 0
      with False show ?thesis by auto
    next
      case (Suc n)
      have "(\<forall>j<Suc n. \<not> P ((x # xs) ! j)) \<longleftrightarrow> (\<forall>j<n. \<not> P (xs ! j))"
        using False by (auto simp: nth_Cons split: nat.splits) 
      with False Suc Cons[of n] show ?thesis by auto
    qed
  qed
qed


lemma length_assign_row: "length (assign_row row idx vals) = length row"
  by (induction row idx vals rule: assign_row.induct) auto

lemma assign_row_other:
  "q \<notin> set idx \<Longrightarrow> assign_row row idx vals ! q = row ! q"
  by (induction row idx vals rule: assign_row.induct) auto

lemma assign_row_hit:
  "distinct idx \<Longrightarrow> i < length idx \<Longrightarrow> length vals = length idx \<Longrightarrow> idx ! i < length row
   \<Longrightarrow> assign_row row idx vals ! (idx ! i) = vals ! i"
proof (induction row idx vals arbitrary: i rule: assign_row.induct)
  case (1 row j idx v vals)
  show ?case
  proof (cases i)
    case 0
    with 1 show ?thesis by (simp add: assign_row_other length_assign_row)
  next
    case (Suc n)
    with 1 show ?thesis by auto
  qed
qed auto





lemma plot_indices_eq:
  "0 < m \<Longrightarrow> map (\<lambda>i. nat (np_mod (int (s + i)) (int m))) [0..<n] = map (\<lambda>i. (s + i) mod m) [0..<n]"
  by (simp add: np_mod_def nat_mod_as_int)

lemma index_error_ring:
  "0 < m \<Longrightarrow> list_all (\<lambda>row. length row = m) buf \<Longrightarrow> \<not> index_error buf (map (\<lambda>i. (s + i) mod m) xs)"
  by (auto simp: index_error_def list_ex_iff list_all_iff not_le)

lemma write_block_rows:
  assumes m: "0 < sample_rate st * buffer_size st"
    and wf: "wf_buffer st"
    and w: "0 < white_out st"
    and shape: "num_samples_per_sample_set sd = length (window_buffer st)"
      "length (samples sd) = num_samples_per_sample_set sd * num_sample_sets sd"
  shows "write_block sd st =
     Inr (st\<lparr> window_buffer :=
                 map (\<lambda>c. write_row (sample_rate st * buffer_size st) (samples_seen st)
                            (white_out st) (window_buffer st ! c) (block_row sd c))
                   [0..<length (window_buffer st)],
               samples_seen := samples_seen st + num_sample_sets sd \<rparr>)"
proof -
  let ?m = "sample_rate st * buffer_size st"
  let ?k = "num_sample_sets sd"
  let ?w = "white_out st"
  let ?C = "length (window_buffer st)"
  let ?pi = "map (\<lambda>i. nat (np_mod (int (samples_seen st + i)) (int ?m))) [0..<?k + ?w]"
  have pi: "?pi = map (\<lambda>i. (samples_seen st + i) mod ?m) [0..<?k + ?w]"
    using m by (rule plot_indices_eq)
  have head: "slice_until_neg ?pi ?w = map (\<lambda>i. (samples_seen st + i) mod ?m) [0..<?k]"
    unfolding pi using w by (simp add: slice_until_neg_def take_map)
  have tail: "slice_from_neg ?pi ?w = map (\<lambda>i. (samples_seen st + i) mod ?m) [?k..<?k + ?w]"
    unfolding pi using w by (simp add: slice_from_neg_def drop_map)
  have rs: "reshape_F (samples sd) (num_samples_per_sample_set sd) ?k =
      Inr (map (\<lambda>c. block_row sd c) [0..<?C])"
    using shape by (simp add: reshape_F_def block_row_def)
  have all: "list_all (\<lambda>row. length row = ?m) (window_buffer st)"
    using wf by (simp add: wf_buffer_def)
  let ?b1 = "map (\<lambda>c. assign_row (window_buffer st ! c) (map (\<lambda>i. (samples_seen st + i) mod ?m) [0..<?k])
                 (map Some (block_row sd c))) [0..<?C]"
  have s1: "setitem_cols (window_buffer st) (map (\<lambda>i. (samples_seen st + i) mod ?m) [0..<?k])
       (num_samples_per_sample_set sd) ?k (map (map Some) (map (\<lambda>c. block_row sd c) [0..<?C])) = Inr ?b1"
    using index_error_ring[OF m all] shape(1)
    by (simp add: setitem_cols_def broadcast_row_def)
  have all1: "list_all (\<lambda>row. length row = ?m) ?b1"
    using all by (simp add: list_all_iff length_assign_row)
  have s2: "setitem_nan ?b1 (map (\<lambda>i. (samples_seen st + i) mod ?m) [?k..<?k + ?w]) =
      Inr (map (\<lambda>c. write_row ?m (samples_seen st) ?w (window_buffer st ! c) (block_row sd c)) [0..<?C])"
    using index_error_ring[OF m all1]
    by (simp add: setitem_nan_def write_row_def block_row_def)
  show ?thesis
    unfolding write_block_def rs Let_def head tail
    by (simp add: s1 s2 del: map_map)
qed

section \<open>Lemmas on the ring: one row under a write\<close>

lemma length_write_row: "length (write_row m s w row ys) = length row"
  by (simp add: write_row_def length_assign_row)

lemma ring_tail_distinct:
  "w \<le> m \<Longrightarrow> distinct (map (\<lambda>i. (s + i) mod m) [k..<k + w])"
proof -
  assume le: "w \<le> m"
  have "[k..<k + w] = map (\<lambda>i. i + k) [0..<w]"
    by (simp add: map_add_upt add.commute)
  then have "map (\<lambda>i. (s + i) mod m) [k..<k + w] = map (\<lambda>i. ((s + k) + i) mod m) [0..<w]"
    by (simp add: o_def ac_simps)
  with ring_indices_distinct[OF le, of "s + k"] show ?thesis by simp
qed

lemma write_row_other:
  assumes "\<forall>i<length ys + w. q \<noteq> (s + i) mod m"
  shows "write_row m s w row ys ! q = row ! q"
proof -
  let ?head = "map (\<lambda>i. (s + i) mod m) [0..<length ys]"
  let ?tail = "map (\<lambda>i. (s + i) mod m) [length ys..<length ys + w]"
  have t: "q \<notin> set ?tail"
    using assms by auto
  have h: "q \<notin> set ?head"
  proof
    assume "q \<in> set ?head"
    then obtain i where "i < length ys" "q = (s + i) mod m" by auto
    moreover from this have "i < length ys + w" by simp
    ultimately show False using assms by blast
  qed
  have "assign_row (assign_row row ?head (map Some ys)) ?tail (replicate w None) ! q
          = assign_row row ?head (map Some ys) ! q"
    using t by (rule assign_row_other)
  also have "\<dots> = row ! q"
    using h by (rule assign_row_other)
  finally show ?thesis by (simp only: write_row_def)
qed

lemma write_row_nan:
  assumes m: "0 < m" and fit: "length ys + w \<le> m" and len: "length row = m"
    and i: "length ys \<le> i" "i < length ys + w"
  shows "write_row m s w row ys ! ((s + i) mod m) = None"
proof -
  let ?tail = "map (\<lambda>i. (s + i) mod m) [length ys..<length ys + w]"
  let ?r1 = "assign_row row (map (\<lambda>i. (s + i) mod m) [0..<length ys]) (map Some ys)"
  have d: "distinct ?tail" using fit by (intro ring_tail_distinct) simp
  have p: "i - length ys < length ?tail" using i by simp
  have "[length ys..<length ys + w] ! (i - length ys) = length ys + (i - length ys)"
    using i by (intro nth_upt) linarith
  then have at: "?tail ! (i - length ys) = (s + i) mod m" using i by simp
  have "assign_row ?r1 ?tail (replicate w None) ! (?tail ! (i - length ys))
          = replicate w None ! (i - length ys)"
    using d p m len by (intro assign_row_hit) (simp_all add: length_assign_row)
  then show ?thesis using i unfolding at by (simp add: write_row_def)
qed

lemma write_row_sample:
  assumes m: "0 < m" and fit: "length ys + w \<le> m" and len: "length row = m"
    and i: "i < length ys"
  shows "write_row m s w row ys ! ((s + i) mod m) = Some (ys ! i)"
proof -
  let ?head = "map (\<lambda>i. (s + i) mod m) [0..<length ys]"
  let ?tail = "map (\<lambda>i. (s + i) mod m) [length ys..<length ys + w]"
  have notin: "(s + i) mod m \<notin> set ?tail"
  proof
    assume "(s + i) mod m \<in> set ?tail"
    then obtain j where j: "length ys \<le> j" "j < length ys + w" "(s + i) mod m = (s + j) mod m"
      by auto
    have "(s + i) mod m \<noteq> (s + j) mod m"
      using i j(1,2) fit by (intro mod_neq_of_close) auto
    with j(3) show False by simp
  qed
  have d: "distinct ?head" using fit by (intro ring_indices_distinct) simp
  have "assign_row row ?head (map Some ys) ! (?head ! i) = map Some ys ! i"
    using d i m len by (intro assign_row_hit) simp_all
  then have "assign_row row ?head (map Some ys) ! ((s + i) mod m) = Some (ys ! i)"
    using i by simp
  moreover have "assign_row (assign_row row ?head (map Some ys)) ?tail (replicate w None)
           ! ((s + i) mod m) = assign_row row ?head (map Some ys) ! ((s + i) mod m)"
    using notin by (rule assign_row_other)
  ultimately show ?thesis
    by (simp only: write_row_def)
qed


lemma row_inv_fresh: "0 < m \<Longrightarrow> row_inv m w [] (replicate m None)"
  by (simp add: row_inv_def)

lemma row_inv_step:
  assumes m: "0 < m" and fit: "length ys + w \<le> m" and inv: "row_inv m w xs row"
  shows "row_inv m w (xs @ ys) (write_row m (length xs) w row ys)"
proof -
  let ?s = "length xs"
  let ?r = "write_row m ?s w row ys"
  have len: "length row = m" using inv by (simp add: row_inv_def)
  have old: "\<And>j. j < ?s \<Longrightarrow> ?s + w \<le> j + m \<Longrightarrow> row ! (j mod m) = Some (xs ! j)"
    using inv by (simp add: row_inv_def)
  have blank: "\<And>q. q < m \<Longrightarrow> ?s + w \<le> q \<Longrightarrow> row ! q = None"
    using inv by (simp add: row_inv_def)
  have 1: "length ?r = m" using len by (simp add: length_write_row)
  have 2: "?r ! (j mod m) = Some ((xs @ ys) ! j)"
    if j: "j < length (xs @ ys)" "length (xs @ ys) + w \<le> j + m" for j
  proof (cases "j < ?s")
    case True
    have "\<forall>i<length ys + w. j mod m \<noteq> (?s + i) mod m"
    proof (intro allI impI)
      fix i assume "i < length ys + w"
      then show "j mod m \<noteq> (?s + i) mod m"
        using True j(2) by (intro mod_neq_of_close) auto
    qed
    then have "?r ! (j mod m) = row ! (j mod m)" by (rule write_row_other)
    also have "\<dots> = Some (xs ! j)" using True j(2) by (intro old) auto
    finally show ?thesis using True by (simp add: nth_append)
  next
    case False
    then have e: "j = ?s + (j - ?s)" and lt: "j - ?s < length ys" using j(1) by auto
    have "?r ! ((?s + (j - ?s)) mod m) = Some (ys ! (j - ?s))"
      using m fit len lt by (rule write_row_sample)
    then show ?thesis using False e by (simp add: nth_append)
  qed
  have 3: "?r ! (j mod m) = None"
    if j: "length (xs @ ys) \<le> j" "j < length (xs @ ys) + w" for j
  proof -
    have e: "j = ?s + (j - ?s)" using j by auto
    have "?r ! ((?s + (j - ?s)) mod m) = None"
      using m fit len j by (intro write_row_nan) auto
    then show ?thesis using e by simp
  qed
  have 4: "?r ! q = None" if q: "q < m" "length (xs @ ys) + w \<le> q" for q
  proof -
    have "\<forall>i<length ys + w. q \<noteq> (?s + i) mod m"
    proof (intro allI impI)
      fix i assume "i < length ys + w"
      then have "?s + i < q" using q(2) by simp
      then have "(?s + i) mod m = ?s + i" using q(1) by simp
      then show "q \<noteq> (?s + i) mod m" using \<open>?s + i < q\<close> by simp
    qed
    then have "?r ! q = row ! q" by (rule write_row_other)
    then show ?thesis using blank[of q] q by simp
  qed
  show ?thesis
    unfolding row_inv_def using 1 2 3 4 by blast
qed

lemma int_mod_neq_of_close:
  fixes a b m :: int
  assumes "a < b" "b - a < m"
  shows "a mod m \<noteq> b mod m"
proof
  assume "a mod m = b mod m"
  then have "m dvd b - a"
    by (metis mod_eq_dvd_iff)
  then show False using assms
    by (simp add: zdvd_not_zless)
qed

lemma first_index_split:
  assumes W: "2 \<le> W"
  shows "first_index (\<lambda>i. np_mod i (int W) = 1) [a..a + int W - 1] = Some (nat ((1 - a) mod int W))"
proof -
  let ?i = "nat ((1 - a) mod int W)"
  have Wpos: "0 < int W" using W by simp
  have nn: "0 \<le> (1 - a) mod int W" using Wpos by simp
  have lt: "(1 - a) mod int W < int W" using Wpos by simp
  have len: "length [a..a + int W - 1] = W" by simp
  have iW: "?i < W" using nn lt by linarith
  have nth: "[a..a + int W - 1] ! k = a + int k" if "k < W" for k
    using that by (intro nth_upto) linarith
  have "(a + (1 - a) mod int W) mod int W = (a + (1 - a)) mod int W"
    by (simp add: mod_add_right_eq)
  also have "\<dots> = 1" using W by simp
  finally have hit: "np_mod ([a..a + int W - 1] ! ?i) (int W) = 1"
    using iW nn Wpos by (simp add: nth np_mod_def)
  have miss: "np_mod ([a..a + int W - 1] ! j) (int W) \<noteq> 1" if j: "j < ?i" for j
  proof -
    have jW: "j < W" using j iW by simp
    have "(a + int j) mod int W \<noteq> (a + int ?i) mod int W"
      using j iW by (intro int_mod_neq_of_close) linarith+
    moreover have "(a + int ?i) mod int W = 1"
      using hit iW Wpos by (simp add: nth np_mod_def)
    ultimately show ?thesis using jW Wpos by (simp add: nth np_mod_def)
  qed
  show ?thesis
    unfolding first_index_Some_iff using iW hit miss len by simp
qed

lemma hstack_same: "hstack (map f xs) (map g xs) = map (\<lambda>x. f x @ g x) xs"
  by (induction xs) (simp_all add: hstack_def)

lemma index_error_scroll:
  "0 < m \<Longrightarrow> list_all (\<lambda>row. length row = m) buf \<Longrightarrow>
     \<not> index_error buf (map (\<lambda>i. nat (np_mod i (int m))) xs)"
  by (auto simp: index_error_def list_ex_iff list_all_iff not_le np_mod_def nat_less_iff
           dest!: in_set_takeD in_set_dropD)

lemma render_slice_joined:
  assumes m: "0 < sample_rate st * buffer_size st"
    and wf: "wf_buffer st"
    and W: "2 \<le> window_size st * sample_rate st"
  shows "render_slice st =
     slice_step
       (map (\<lambda>row. sweep_order (split_position st)
                     (map (\<lambda>j. row ! nat (j mod int (sample_rate st * buffer_size st)))
                        (window_indices st)))
          (window_buffer st))
       (downsampling_factor st)"
proof -
  let ?m = "sample_rate st * buffer_size st"
  let ?W = "window_size st * sample_rate st"
  let ?a = "int (samples_seen st + white_out st) - int ?W"
  let ?scroll = "map (\<lambda>i. nat (np_mod i (int ?m))) (window_indices st)"
  have wi: "window_indices st = [?a..?a + int ?W - 1]"
    by (simp add: window_indices_def)
  have comm: "sample_rate st * window_size st = ?W" by (simp add: mult.commute)
  have split: "first_index (\<lambda>i. np_mod i (int (sample_rate st * window_size st)) = 1)
      (window_indices st) = Some (split_position st)"
    unfolding comm wi split_position_def using W by (rule first_index_split)
  have all: "list_all (\<lambda>row. length row = ?m) (window_buffer st)"
    using wf by (simp add: wf_buffer_def)
  have late: "getitem_cols (window_buffer st) (drop (split_position st) ?scroll) =
      Inr (map (\<lambda>row. map (\<lambda>i. row ! i) (drop (split_position st) ?scroll)) (window_buffer st))"
    using index_error_scroll[OF m all, of "drop (split_position st) (window_indices st)"]
    by (simp add: getitem_cols_def drop_map)
  have early: "getitem_cols (window_buffer st) (take (split_position st) ?scroll) =
      Inr (map (\<lambda>row. map (\<lambda>i. row ! i) (take (split_position st) ?scroll)) (window_buffer st))"
    using index_error_scroll[OF m all, of "take (split_position st) (window_indices st)"]
    by (simp add: getitem_cols_def take_map)
  have npm: "(\<lambda>i. nat (np_mod i (int ?m))) = (\<lambda>i. nat (i mod int ?m))"
    using m by (simp add: np_mod_def fun_eq_iff)
  have row: "map (\<lambda>i. row ! i) (drop sp ?scroll) @ map (\<lambda>i. row ! i) (take sp ?scroll)
      = sweep_order sp (map (\<lambda>j. row ! nat (j mod int ?m)) (window_indices st))"
    for row :: "'a option list" and sp
    unfolding npm by (simp add: sweep_order_def drop_map take_map o_def)
  show ?thesis
    unfolding render_slice_def Let_def split late early option.case sum.case hstack_same row
    by (rule refl)
qed

lemma render_slice_rows:
  assumes m: "0 < sample_rate st * buffer_size st"
    and wf: "wf_buffer st"
    and W: "2 \<le> window_size st * sample_rate st"
    and d: "0 < downsampling_factor st"
  shows "render_slice st =
     Inr (map (\<lambda>row. stride (downsampling_factor st)
                  (sweep_order (split_position st)
                     (map (\<lambda>j. row ! nat (j mod int (sample_rate st * buffer_size st)))
                        (window_indices st))))
            (window_buffer st))"
  unfolding render_slice_joined[OF m wf W] using d by (simp add: slice_step_def o_def)

lemma window_cells:
  assumes m: "0 < m" and Wm: "W \<le> m" and inv: "row_inv m w xs row"
  shows "map (\<lambda>j. row ! nat (j mod int m)) [int (length xs + w) - int W..int (length xs + w) - 1]
       = map (logical_cell xs) [int (length xs + w) - int W..int (length xs + w) - 1]"
proof (rule map_cong[OF refl])
  fix j assume "j \<in> set [int (length xs + w) - int W..int (length xs + w) - 1]"
  then have lo: "int (length xs + w) - int W \<le> j" and hi: "j < int (length xs + w)" by auto
  consider "j < 0" | "0 \<le> j" "j < int (length xs)" | "int (length xs) \<le> j" by linarith
  then show "row ! nat (j mod int m) = logical_cell xs j"
  proof cases
    case 1
    have "(j + int m) mod int m = j + int m"
      using 1 lo Wm by (intro mod_pos_pos_trivial) linarith+
    then have e: "j mod int m = j + int m" by simp
    have q: "nat (j + int m) < m" "length xs + w \<le> nat (j + int m)"
      using 1 lo Wm by linarith+
    have "row ! nat (j + int m) = None"
      using inv q by (simp add: row_inv_def)
    then show ?thesis using 1 e by (simp add: logical_cell_def)
  next
    case 2
    have e: "nat (j mod int m) = nat j mod m"
      using 2 by (simp add: nat_mod_distrib)
    have "nat j < length xs" "length xs + w \<le> nat j + m"
      using 2 lo Wm by linarith+
    then have "row ! (nat j mod m) = Some (xs ! nat j)"
      using inv by (simp add: row_inv_def)
    then show ?thesis using 2 e by (simp add: logical_cell_def)
  next
    case 3
    have e: "nat (j mod int m) = nat j mod m"
      using 3 by (simp add: nat_mod_distrib)
    have "length xs \<le> nat j" "nat j < length xs + w"
      using 3 hi by linarith+
    then have "row ! (nat j mod m) = None"
      using inv by (simp add: row_inv_def)
    then show ?thesis using 3 e by (simp add: logical_cell_def)
  qed
qed

section \<open>Lemmas on the ring: the buffer under a list of writes\<close>

lemma length_block_row: "length (block_row sd c) = num_sample_sets sd"
  by (simp add: block_row_def)

lemma length_channel_stream: "length (channel_stream bs c) = sum_list (map num_sample_sets bs)"
  by (induction bs) (simp_all add: channel_stream_def length_block_row)

lemma channel_stream_snoc: "channel_stream (bs @ [sd]) c = channel_stream bs c @ block_row sd c"
  by (simp add: channel_stream_def)

lemma same_config_white_out: "same_config st st' \<Longrightarrow> white_out st' = white_out st"
  by (simp add: same_config_def white_out_def)

lemma tracks_wf: "tracks bs st \<Longrightarrow> wf_buffer st"
  unfolding tracks_def wf_buffer_def list_all_iff row_inv_def
  by (auto simp: in_set_conv_nth)

lemma tracks_fresh:
  assumes "0 < sample_rate st * buffer_size st"
    and "window_buffer st = replicate C (replicate (sample_rate st * buffer_size st) None)"
    and "samples_seen st = 0"
  shows "tracks [] st"
  using assms by (simp add: tracks_def list_all_iff channel_stream_def row_inv_fresh)

lemma write_block_tracks:
  assumes m: "0 < sample_rate st * buffer_size st"
    and w: "0 < white_out st"
    and fits: "block_fits (length (window_buffer st)) (white_out st)
                 (sample_rate st * buffer_size st) sd"
    and tr: "tracks bs st"
  shows "\<exists>st'. write_block sd st = Inr st' \<and> tracks (bs @ [sd]) st' \<and> same_config st st'"
proof -
  let ?m = "sample_rate st * buffer_size st"
  let ?st' = "st\<lparr> window_buffer :=
                 map (\<lambda>c. write_row ?m (samples_seen st) (white_out st) (window_buffer st ! c)
                            (block_row sd c))
                   [0..<length (window_buffer st)],
               samples_seen := samples_seen st + num_sample_sets sd \<rparr>"
  have wb: "write_block sd st = Inr ?st'"
    using m tracks_wf[OF tr] w fits by (intro write_block_rows) (simp_all add: block_fits_def)
  have cfg: "same_config st ?st'" by (simp add: same_config_def)
  have seen: "samples_seen st = length (channel_stream bs c)" for c
    using tr by (simp add: tracks_def length_channel_stream)
  have rows: "row_inv ?m (white_out st) (channel_stream (bs @ [sd]) c)
        (write_row ?m (samples_seen st) (white_out st) (window_buffer st ! c) (block_row sd c))"
    if c: "c < length (window_buffer st)" for c
  proof -
    have inv: "row_inv ?m (white_out st) (channel_stream bs c) (window_buffer st ! c)"
      using tr c by (simp add: tracks_def list_all_iff)
    have fit: "length (block_row sd c) + white_out st \<le> ?m"
      using fits by (simp add: block_fits_def length_block_row)
    show ?thesis
      unfolding channel_stream_snoc seen[of c] using m fit inv by (rule row_inv_step)
  qed
  have "tracks (bs @ [sd]) ?st'"
    using tr rows by (simp add: tracks_def list_all_iff white_out_def)
  with wb cfg show ?thesis by blast
qed

lemma same_config_trans: "same_config a b \<Longrightarrow> same_config b c \<Longrightarrow> same_config a c"
  by (simp add: same_config_def)

lemma write_all_tracks:
  assumes "0 < sample_rate st * buffer_size st"
    and "0 < white_out st"
    and "list_all (block_fits (length (window_buffer st)) (white_out st)
                 (sample_rate st * buffer_size st)) q"
    and "tracks bs st"
  shows "\<exists>st'. write_all q st = Inr st' \<and> tracks (bs @ q) st' \<and> same_config st st'"
  using assms
proof (induction q arbitrary: bs st)
  case Nil
  then show ?case by (simp add: same_config_def)
next
  case (Cons sd q)
  from Cons.prems obtain st1 where 1: "write_block sd st = Inr st1" "tracks (bs @ [sd]) st1"
      "same_config st st1"
    using write_block_tracks[of st sd bs] by auto
  have cfg: "sample_rate st1 = sample_rate st" "buffer_size st1 = buffer_size st"
      "length (window_buffer st1) = length (window_buffer st)" "white_out st1 = white_out st"
    using 1(3) same_config_white_out[OF 1(3)] by (simp_all add: same_config_def)
  have "\<exists>st'. write_all q st1 = Inr st' \<and> tracks ((bs @ [sd]) @ q) st' \<and> same_config st1 st'"
    using Cons.prems 1(2) by (intro Cons.IH) (simp_all add: cfg)
  then obtain st' where 2: "write_all q st1 = Inr st'" "tracks ((bs @ [sd]) @ q) st'"
      "same_config st1 st'" by blast
  show ?case
    using 1 2 same_config_trans[OF 1(3) 2(3)] by auto
qed

lemma map_by_index: "map f xs = map (\<lambda>c. f (xs ! c)) [0..<length xs]"
  by (rule nth_equalityI) simp_all

lemma render_slice_tracks:
  assumes m: "0 < sample_rate st * buffer_size st"
    and W: "2 \<le> window_size st * sample_rate st"
    and Wm: "window_size st \<le> buffer_size st"
    and d: "0 < downsampling_factor st"
    and tr: "tracks bs st"
  shows "render_slice st =
     Inr (map (\<lambda>c. stride (downsampling_factor st)
                  (sweep_order (split_position st)
                     (map (logical_cell (channel_stream bs c)) (window_indices st))))
            [0..<length (window_buffer st)])"
proof -
  let ?m = "sample_rate st * buffer_size st"
  let ?F = "\<lambda>row. stride (downsampling_factor st)
                  (sweep_order (split_position st)
                     (map (\<lambda>j. row ! nat (j mod int ?m)) (window_indices st)))"
  have le: "window_size st * sample_rate st \<le> ?m"
    using Wm by (simp add: mult.commute)
  have cells: "map (\<lambda>j. (window_buffer st ! c) ! nat (j mod int ?m)) (window_indices st)
      = map (logical_cell (channel_stream bs c)) (window_indices st)"
    if c: "c < length (window_buffer st)" for c
  proof -
    have inv: "row_inv ?m (white_out st) (channel_stream bs c) (window_buffer st ! c)"
      using tr c by (simp add: tracks_def list_all_iff)
    have seen: "samples_seen st = length (channel_stream bs c)"
      using tr by (simp add: tracks_def length_channel_stream)
    show ?thesis
      unfolding window_indices_def seen using m le inv by (rule window_cells)
  qed
  have "render_slice st = Inr (map ?F (window_buffer st))"
    using m tracks_wf[OF tr] W d by (rule render_slice_rows)
  also have "map ?F (window_buffer st) = map (\<lambda>c. ?F (window_buffer st ! c)) [0..<length (window_buffer st)]"
    by (rule map_by_index)
  also have "\<dots> = map (\<lambda>c. stride (downsampling_factor st)
                  (sweep_order (split_position st)
                     (map (logical_cell (channel_stream bs c)) (window_indices st))))
            [0..<length (window_buffer st)]"
    by (rule map_cong[OF refl]) (simp only: cells atLeastLessThan_iff set_upt)
  finally show ?thesis .
qed

lemma wf_buffer_initUI: "wf_buffer (initUI rate C)"
  by (simp add: wf_buffer_def initUI_def list_all_iff)

section \<open>The colour lookup of the impedance plot\<close>

text \<open>
  Claim C9. \<^verbatim>\<open>_lookup_table\<close> is partial: it raises (the unbound \<^verbatim>\<open>color_code\<close>) exactly for
  the values strictly between 500 and 5000, strictly between 5000 and 5100, strictly between
  5100 and 5200, and above 5200; it returns a colour exactly for the values below 500 and for
  500, 5000, 5100 and 5200.
\<close>

theorem lookup_table_partial:
  "((lookup_table v = Inl UnboundLocalError) =
      ((500 < v \<and> v < 5000) \<or> (5000 < v \<and> v < 5100) \<or> (5100 < v \<and> v < 5200) \<or> 5200 < v)) \<and>
   ((\<exists>c. lookup_table v = Inr c) =
      (v < 500 \<or> v = 500 \<or> v = 5000 \<or> v = 5100 \<or> v = 5200))"
  unfolding lookup_table_def by auto

section \<open>The window size\<close>

lemma write_block_fields:
  "write_block sd st = Inr st' \<Longrightarrow>
     window_size st' = window_size st \<and> buffer_size st' = buffer_size st \<and>
     sample_rate st' = sample_rate st \<and> downsampling_factor st' = downsampling_factor st \<and>
     samples_seen st' = samples_seen st + num_sample_sets sd"
  unfolding write_block_def by (auto simp: Let_def split: sum.splits)

text \<open>
  Claim C5. The window size stays between 1 and the buffer size: it is so after set-up, and
  both buttons and every write of a block keep it so. A button pressed at the bound changes
  nothing; a button pressed inside the range changes the worker's window size by exactly one.
\<close>

theorem window_size_in_range:
  "window_ok (setup_gui rate C) \<and>
   (window_ok g \<longrightarrow>
      window_ok (decrease_time_range g) \<and> window_ok (increase_time_range g) \<and>
      (\<forall>sd st'. write_block sd (worker g) = Inr st' \<longrightarrow> window_ok (g\<lparr> worker := st' \<rparr>)) \<and>
      (gui_window_size g = 1 \<longrightarrow> decrease_time_range g = g) \<and>
      (gui_window_size g = gui_buffer_size g \<longrightarrow> increase_time_range g = g) \<and>
      (1 < gui_window_size g \<longrightarrow>
         window_size (worker (decrease_time_range g)) + 1 = window_size (worker g)) \<and>
      (gui_window_size g < gui_buffer_size g \<longrightarrow>
         window_size (worker (increase_time_range g)) = window_size (worker g) + 1))"
proof (intro conjI impI allI)
  show "window_ok (setup_gui rate C)"
    by (simp add: window_ok_def setup_gui_def initUI_def)
next
  assume "window_ok g"
  then show "window_ok (decrease_time_range g)"
    by (auto simp: window_ok_def decrease_time_range_def)
next
  assume "window_ok g"
  then show "window_ok (increase_time_range g)"
    by (auto simp: window_ok_def increase_time_range_def)
next
  fix sd st'
  assume "window_ok g" and "write_block sd (worker g) = Inr st'"
  then show "window_ok (g\<lparr> worker := st' \<rparr>)"
    using write_block_fields[of sd "worker g" st'] by (simp add: window_ok_def)
next
  assume "gui_window_size g = 1"
  then show "decrease_time_range g = g" by (simp add: decrease_time_range_def)
next
  assume "gui_window_size g = gui_buffer_size g"
  then show "increase_time_range g = g" by (simp add: increase_time_range_def)
next
  assume "window_ok g" and "1 < gui_window_size g"
  then show "window_size (worker (decrease_time_range g)) + 1 = window_size (worker g)"
    by (simp add: window_ok_def decrease_time_range_def)
next
  assume "gui_window_size g < gui_buffer_size g"
  then show "window_size (worker (increase_time_range g)) = window_size (worker g) + 1"
    by (simp add: increase_time_range_def)
qed

theorem window_size_in_range_witness:
  "window_ok (setup_gui 1000 2 :: nat gui) \<and>
   window_ok (decrease_time_range (setup_gui 1000 2 :: nat gui)) \<and>
   window_ok (increase_time_range (setup_gui 1000 2 :: nat gui)) \<and>
   window_size (worker (decrease_time_range (setup_gui 1000 2 :: nat gui))) + 1 = 5 \<and>
   window_size (worker (increase_time_range (setup_gui 1000 2 :: nat gui))) = 5 + 1"
proof -
  have ok: "window_ok (setup_gui 1000 2 :: nat gui)"
    by (simp add: window_ok_def setup_gui_def initUI_def)
  have inside: "1 < gui_window_size (setup_gui 1000 2 :: nat gui)"
    "gui_window_size (setup_gui 1000 2 :: nat gui) < gui_buffer_size (setup_gui 1000 2 :: nat gui)"
    by (simp_all add: setup_gui_def)
  have now: "window_size (worker (setup_gui 1000 2 :: nat gui)) = 5"
    by (simp add: setup_gui_def initUI_def)
  show ?thesis
    using window_size_in_range[of 1000 2 "setup_gui 1000 2 :: nat gui"] ok inside now
    by auto
qed

section \<open>Lag mode\<close>





section \<open>Polling an empty queue\<close>

text \<open>
  Claim C7. A pass of the outer loop of \<^verbatim>\<open>plotter.py\<close> over an empty queue does nothing at
  all: no event, in particular no sleep, stands between two tests of the loop condition. The
  loop of the impedance plotter sleeps for a second in the same situation.
\<close>

theorem empty_queue_pass:
  "update_samples_pass lag [] st = Inr (lag, st, []) \<and>
   impedance_pass sample_set [] = Inr (sample_set, [Sleep_s 1])"
  by (simp add: update_samples_pass_def impedance_pass_def)

section \<open>Lemmas on the joined segments and on single cells of a write\<close>

lemma length_sweep_order: "length (sweep_order sp xs) = length xs"
  by (simp add: sweep_order_def)

lemma nth_sweep_order:
  assumes "sp \<le> length xs" "p < length xs"
  shows "sweep_order sp xs ! p = xs ! ((sp + p) mod length xs)"
proof (cases "p < length xs - sp")
  case True
  then have "(sp + p) mod length xs = sp + p" by simp
  with True assms show ?thesis by (simp add: sweep_order_def nth_append)
next
  case False
  then have ge: "length xs \<le> sp + p" by simp
  have "(sp + p) mod length xs = (sp + p - length xs) mod length xs"
    using ge by (rule le_mod_geq)
  also have "\<dots> = sp + p - length xs" using assms by simp
  finally have "(sp + p) mod length xs = sp + p - length xs" .
  moreover have "sp + p - length xs = p - (length xs - sp)" using assms False by simp
  ultimately show ?thesis using False assms by (simp add: sweep_order_def nth_append)
qed

lemma length_stride: "length (stride d xs) = (length xs + d - 1) div d"
  by (simp add: stride_def)

lemma stride_index_in_range:
  fixes d p n :: nat
  assumes "0 < d" "p < (n + d - 1) div d"
  shows "p * d < n"
proof (rule ccontr)
  define a where "a = p * d"
  assume "\<not> p * d < n"
  then have "n + d - 1 < a + d" using assms(1) unfolding a_def[symmetric] by arith
  then have "n + d - 1 < (p + 1) * d" by (simp add: a_def)
  then have "(n + d - 1) div d < p + 1"
    using assms(1) by (simp add: div_less_iff_less_mult)
  with assms(2) show False by simp
qed

lemma nth_stride: "p < length (stride d xs) \<Longrightarrow> stride d xs ! p = xs ! (p * d)"
  by (simp add: stride_def)

lemma length_window_indices: "length (window_indices st) = window_size st * sample_rate st"
  by (simp add: window_indices_def flip: of_nat_mult)

lemma nth_window_indices:
  "k < window_size st * sample_rate st \<Longrightarrow>
     window_indices st ! k =
       int (samples_seen st + white_out st) - int (window_size st * sample_rate st) + int k"
  unfolding window_indices_def by (intro nth_upto) linarith

lemma split_position_less:
  assumes "0 < window_size st * sample_rate st"
  shows "split_position st < window_size st * sample_rate st"
proof -
  define x where "x = (1 - (int (samples_seen st + white_out st)
      - int (window_size st * sample_rate st))) mod int (window_size st * sample_rate st)"
  have pos: "0 < int (window_size st * sample_rate st)" using assms by linarith
  have "0 \<le> x" "x < int (window_size st * sample_rate st)"
    unfolding x_def using pos by (rule pos_mod_sign, rule pos_mod_bound)
  then have "nat x < window_size st * sample_rate st" by linarith
  then show ?thesis by (simp only: split_position_def x_def)
qed

lemma white_out_positive: "0 < white_out st \<Longrightarrow> 25 \<le> window_size st * sample_rate st"
proof (rule ccontr)
  assume w: "0 < white_out st" and "\<not> 25 \<le> window_size st * sample_rate st"
  then have "window_size st * sample_rate st * 4 < 100" by linarith
  then have "white_out st = 0" unfolding white_out_def by (rule div_less)
  with w show False by simp
qed

lemma write_block_cell:
  assumes m: "0 < sample_rate st * buffer_size st"
    and wf: "wf_buffer st"
    and w: "0 < white_out st"
    and fits: "block_fits (length (window_buffer st)) (white_out st)
                 (sample_rate st * buffer_size st) sd"
    and c: "c < length (window_buffer st)"
    and s: "s < num_sample_sets sd"
  shows "\<exists>st'. write_block sd st = Inr st' \<and>
           samples_seen st' = samples_seen st + num_sample_sets sd \<and>
           window_buffer st' ! c ! ((samples_seen st + s) mod (sample_rate st * buffer_size st))
             = Some (samples sd ! (c + s * num_samples_per_sample_set sd))"
proof -
  let ?m = "sample_rate st * buffer_size st"
  let ?st' = "st\<lparr> window_buffer :=
                 map (\<lambda>c. write_row ?m (samples_seen st) (white_out st) (window_buffer st ! c)
                            (block_row sd c))
                   [0..<length (window_buffer st)],
               samples_seen := samples_seen st + num_sample_sets sd \<rparr>"
  have wb: "write_block sd st = Inr ?st'"
    using m wf w fits by (intro write_block_rows) (simp_all add: block_fits_def)
  have len: "length (window_buffer st ! c) = ?m"
    using wf c by (simp add: wf_buffer_def list_all_iff)
  have fit: "length (block_row sd c) + white_out st \<le> ?m"
    using fits by (simp add: block_fits_def length_block_row)
  have "write_row ?m (samples_seen st) (white_out st) (window_buffer st ! c) (block_row sd c)
          ! ((samples_seen st + s) mod ?m) = Some (block_row sd c ! s)"
    using m fit len s by (intro write_row_sample) (simp_all add: length_block_row)
  moreover have "block_row sd c ! s = samples sd ! (c + s * num_samples_per_sample_set sd)"
    using s by (simp add: block_row_def)
  ultimately have "window_buffer ?st' ! c ! ((samples_seen st + s) mod ?m)
      = Some (samples sd ! (c + s * num_samples_per_sample_set sd))"
    using c by simp
  with wb show ?thesis by (intro exI[of _ ?st']) simp
qed

lemma write_block_gap:
  assumes m: "0 < sample_rate st * buffer_size st"
    and wf: "wf_buffer st"
    and w: "0 < white_out st"
    and fits: "block_fits (length (window_buffer st)) (white_out st)
                 (sample_rate st * buffer_size st) sd"
    and c: "c < length (window_buffer st)"
    and i: "num_sample_sets sd \<le> i" "i < num_sample_sets sd + white_out st"
  shows "\<exists>st'. write_block sd st = Inr st' \<and>
           window_buffer st' ! c ! ((samples_seen st + i) mod (sample_rate st * buffer_size st))
             = None"
proof -
  let ?m = "sample_rate st * buffer_size st"
  let ?st' = "st\<lparr> window_buffer :=
                 map (\<lambda>c. write_row ?m (samples_seen st) (white_out st) (window_buffer st ! c)
                            (block_row sd c))
                   [0..<length (window_buffer st)],
               samples_seen := samples_seen st + num_sample_sets sd \<rparr>"
  have wb: "write_block sd st = Inr ?st'"
    using m wf w fits by (intro write_block_rows) (simp_all add: block_fits_def)
  have len: "length (window_buffer st ! c) = ?m"
    using wf c by (simp add: wf_buffer_def list_all_iff)
  have fit: "length (block_row sd c) + white_out st \<le> ?m"
    using fits by (simp add: block_fits_def length_block_row)
  have "write_row ?m (samples_seen st) (white_out st) (window_buffer st ! c) (block_row sd c)
          ! ((samples_seen st + i) mod ?m) = None"
    using m fit len i by (intro write_row_nan) (simp_all add: length_block_row)
  then have "window_buffer ?st' ! c ! ((samples_seen st + i) mod ?m) = None"
    using c by simp
  with wb show ?thesis by (intro exI[of _ ?st']) simp
qed

section \<open>The layout of a block\<close>

text \<open>
  Claim C8, amended. The payload of a block is read sample set by sample set (the reshape is
  column-major): for a block of as many samples per sample set as the buffer has rows, written
  with a white-out of at least one slot that fits the ring, the sample of channel \<open>c\<close> at
  in-block position \<open>s\<close> is \<open>payload[c + s * numChannels]\<close>, and it goes to the ring slot
  \<open>(samples_seen + s) mod bufferSamples\<close> of row \<open>c\<close>.
\<close>

theorem write_block_sample_set_major:
  assumes "0 < sample_rate st * buffer_size st"
    and "wf_buffer st"
    and "0 < white_out st"
    and "block_fits (length (window_buffer st)) (white_out st) (sample_rate st * buffer_size st) sd"
    and "c < length (window_buffer st)"
    and "s < num_sample_sets sd"
  shows "\<exists>st'. write_block sd st = Inr st' \<and>
           window_buffer st' ! c ! ((samples_seen st + s) mod (sample_rate st * buffer_size st))
             = Some (samples sd ! (c + s * num_samples_per_sample_set sd))"
  using write_block_cell[OF assms] by blast

lemma example_block_fits:
  "block_fits (length (window_buffer (initUI 1000 2 :: nat plotter)))
     (white_out (initUI 1000 2 :: nat plotter))
     (sample_rate (initUI 1000 2 :: nat plotter) * buffer_size (initUI 1000 2 :: nat plotter))
     \<lparr> num_samples_per_sample_set = 2, num_sample_sets = 3, samples = [10, 11, 12, 13, 14, 15] \<rparr>"
  by (simp add: block_fits_def initUI_def white_out_def)

theorem write_block_sample_set_major_witness:
  "\<exists>st'. write_block
            \<lparr> num_samples_per_sample_set = 2, num_sample_sets = 3,
              samples = [10, 11, 12, 13, 14, 15] \<rparr> (initUI 1000 2 :: nat plotter) = Inr st' \<and>
         window_buffer st' ! 1 ! 2 = Some 15"
proof -
  have m: "0 < sample_rate (initUI 1000 2 :: nat plotter) * buffer_size (initUI 1000 2 :: nat plotter)"
    and w: "0 < white_out (initUI 1000 2 :: nat plotter)"
    and c: "1 < length (window_buffer (initUI 1000 2 :: nat plotter))"
    by (simp_all add: initUI_def white_out_def)
  show ?thesis
    using write_block_sample_set_major[OF m wf_buffer_initUI w example_block_fits c, of 2]
    by (simp add: initUI_def numeral_2_eq_2)
qed

text \<open>
  The claim as stated fails: of the payload \<open>10, \<dots>, 15\<close> of two channels and three sample
  sets, the cell of channel 0 at position 1 gets \<open>payload[2]\<close>, not \<open>payload[0 * 3 + 1]\<close>.
\<close>

theorem channel_major_counterexample:
  "\<exists>st'. write_block
            \<lparr> num_samples_per_sample_set = 2, num_sample_sets = 3,
              samples = [10, 11, 12, 13, 14, 15] \<rparr> (initUI 1000 2 :: nat plotter) = Inr st' \<and>
         window_buffer st' ! 0 ! 1 = Some 12 \<and>
         window_buffer st' ! 0 ! 1 \<noteq> Some ([10, 11, 12, 13, 14, 15] ! (0 * 3 + 1))"
proof -
  have m: "0 < sample_rate (initUI 1000 2 :: nat plotter) * buffer_size (initUI 1000 2 :: nat plotter)"
    and w: "0 < white_out (initUI 1000 2 :: nat plotter)"
    and c: "0 < length (window_buffer (initUI 1000 2 :: nat plotter))"
    by (simp_all add: initUI_def white_out_def)
  show ?thesis
    using write_block_cell[OF m wf_buffer_initUI w example_block_fits c, of 1]
    by (auto simp: initUI_def)
qed

section \<open>Lemmas on a zero slice step\<close>

lemma write_block_wf:
  assumes "write_block sd st = Inr st'" and "wf_buffer st"
  shows "wf_buffer st'"
proof -
  from assms(1) obtain smp b1 b2 idx1 idx2 where
    b1: "setitem_cols (window_buffer st) idx1 (num_samples_per_sample_set sd)
           (num_sample_sets sd) (map (map Some) smp) = Inr b1"
    and b2: "setitem_nan b1 idx2 = Inr b2"
    and st': "st' = st\<lparr> window_buffer := b2,
                         samples_seen := samples_seen st + num_sample_sets sd \<rparr>"
    unfolding write_block_def Let_def by (auto split: sum.splits)
  have all: "list_all (\<lambda>row. length row = sample_rate st * buffer_size st) (window_buffer st)"
    using assms(2) by (simp add: wf_buffer_def)
  have "list_all (\<lambda>row. length row = sample_rate st * buffer_size st) b1"
    using b1 all
    by (auto simp: setitem_cols_def list_all_iff length_assign_row split: if_splits)
  then have "list_all (\<lambda>row. length row = sample_rate st * buffer_size st) b2"
    using b2 by (auto simp: setitem_nan_def list_all_iff length_assign_row split: if_splits)
  then show ?thesis by (simp add: wf_buffer_def st')
qed

lemma render_slice_zero_step:
  "downsampling_factor st = 0 \<Longrightarrow> \<exists>e. render_slice st = Inl e"
  unfolding render_slice_def Let_def slice_step_def
  by (auto split: option.splits sum.splits)

lemma render_slice_zero_step_wf:
  assumes "downsampling_factor st = 0" "0 < sample_rate st * buffer_size st" "wf_buffer st"
    "2 \<le> window_size st * sample_rate st"
  shows "render_slice st = Inl ValueError"
  unfolding render_slice_joined[OF assms(2,3,4)] using assms(1) by (simp add: slice_step_def)

lemma update_samples_body_zero_step:
  assumes d: "downsampling_factor st = 0" and l: "\<not> lag_update lag qsize"
  shows "\<exists>e. update_samples_body lag qsize sd st = Inl e"
proof (cases "write_block sd st")
  case (Inl e)
  then show ?thesis by (simp add: update_samples_body_def Let_def)
next
  case (Inr st')
  then have "downsampling_factor st' = 0" using d write_block_fields[OF Inr] by simp
  then obtain e where "render_slice st' = Inl e" using render_slice_zero_step by blast
  with Inr l show ?thesis by (simp add: update_samples_body_def Let_def)
qed

lemma update_samples_body_zero_step_wf:
  assumes d: "downsampling_factor st = 0" and l: "\<not> lag_update lag qsize"
    and m: "0 < sample_rate st * buffer_size st" and wf: "wf_buffer st"
    and W: "2 \<le> window_size st * sample_rate st"
    and wr: "write_block sd st = Inr st'"
  shows "update_samples_body lag qsize sd st = Inl ValueError"
proof -
  note f = write_block_fields[OF wr]
  have "render_slice st' = Inl ValueError"
    using d m W f write_block_wf[OF wr wf] by (intro render_slice_zero_step_wf) simp_all
  with wr l show ?thesis by (simp add: update_samples_body_def Let_def)
qed

section \<open>The length of a rendered slice\<close>

lemma render_slice_cells:
  assumes m: "0 < sample_rate st * buffer_size st"
    and wf: "wf_buffer st"
    and W: "2 \<le> window_size st * sample_rate st"
    and d: "0 < downsampling_factor st"
  shows "\<exists>out. render_slice st = Inr out \<and> length out = length (window_buffer st) \<and>
     (\<forall>c<length (window_buffer st).
        length (out ! c) =
          (window_size st * sample_rate st + downsampling_factor st - 1) div downsampling_factor st \<and>
        (\<forall>p<length (out ! c).
           out ! c ! p = window_buffer st ! c ! render_slot st (p * downsampling_factor st)))"
proof -
  let ?W = "window_size st * sample_rate st"
  let ?m = "sample_rate st * buffer_size st"
  let ?d = "downsampling_factor st"
  let ?cells = "\<lambda>row. map (\<lambda>j. row ! nat (j mod int ?m)) (window_indices st)"
  let ?F = "\<lambda>row. stride ?d (sweep_order (split_position st) (?cells row))"
  have r: "render_slice st = Inr (map ?F (window_buffer st))"
    using m wf W d by (rule render_slice_rows)
  have Wpos: "0 < ?W" using W by linarith
  have sp: "split_position st \<le> ?W" using split_position_less[OF Wpos] by simp
  have len: "length (?F row) = (?W + ?d - 1) div ?d" for row
    by (simp add: length_stride length_sweep_order length_window_indices)
  have cell: "?F row ! p = row ! render_slot st (p * ?d)" if p: "p < length (?F row)" for row p
  proof -
    have pd: "p * ?d < ?W" using p d unfolding len by (intro stride_index_in_range)
    have lc: "length (?cells row) = ?W" by (simp add: length_window_indices)
    have q: "(split_position st + p * ?d) mod ?W < ?W" using Wpos by simp
    have "?F row ! p = sweep_order (split_position st) (?cells row) ! (p * ?d)"
      using p by (rule nth_stride)
    also have "\<dots> = ?cells row ! ((split_position st + p * ?d) mod ?W)"
      using nth_sweep_order[of "split_position st" "?cells row" "p * ?d"] sp pd
      unfolding lc by simp
    also have "\<dots> = row ! nat (window_indices st ! ((split_position st + p * ?d) mod ?W) mod int ?m)"
      using q by (simp add: length_window_indices)
    also have "\<dots> = row ! render_slot st (p * ?d)"
      unfolding nth_window_indices[OF q] render_slot_def by (rule refl)
    finally show ?thesis .
  qed
  have nth: "map ?F (window_buffer st) ! c = ?F (window_buffer st ! c)"
    if "c < length (window_buffer st)" for c
    using that by (rule nth_map)
  have "length (map ?F (window_buffer st)) = length (window_buffer st) \<and>
     (\<forall>c<length (window_buffer st).
        length (map ?F (window_buffer st) ! c) = (?W + ?d - 1) div ?d \<and>
        (\<forall>p<length (map ?F (window_buffer st) ! c).
           map ?F (window_buffer st) ! c ! p = window_buffer st ! c ! render_slot st (p * ?d)))"
  proof (intro conjI allI impI)
    show "length (map ?F (window_buffer st)) = length (window_buffer st)" by simp
  next
    fix c assume "c < length (window_buffer st)"
    then show "length (map ?F (window_buffer st) ! c) = (?W + ?d - 1) div ?d"
      by (simp only: nth len)
  next
    fix c p assume c: "c < length (window_buffer st)"
      and "p < length (map ?F (window_buffer st) ! c)"
    then have "p < length (?F (window_buffer st ! c))" by (simp only: nth)
    then have "?F (window_buffer st ! c) ! p = window_buffer st ! c ! render_slot st (p * ?d)"
      by (rule cell)
    then show "map ?F (window_buffer st) ! c ! p
        = window_buffer st ! c ! render_slot st (p * ?d)"
      using c by (simp only: nth)
  qed
  with r show ?thesis by blast
qed

lemma ceil_div_of_dvd:
  fixes d W :: nat
  assumes "0 < d" "d dvd W"
  shows "(W + d - 1) div d = W div d"
proof -
  from assms(2) obtain k where k: "W = d * k" by (rule dvdE)
  obtain e where e: "d = Suc e" using assms(1) by (cases d) auto
  have "W + d - 1 = e + k * d" using k e by (simp add: mult.commute)
  then have "(W + d - 1) div d = (e + k * d) div d" by simp
  also have "\<dots> = k + e div d" using assms(1) by (intro div_mult_self1) simp
  also have "\<dots> = k" using e by simp
  finally show ?thesis using assms(1) k by simp
qed

lemma render_slot_less:
  "0 < sample_rate st * buffer_size st \<Longrightarrow> render_slot st q < sample_rate st * buffer_size st"
proof -
  assume m: "0 < sample_rate st * buffer_size st"
  define x where "x = (int (samples_seen st + white_out st) - int (window_size st * sample_rate st)
           + int ((split_position st + q) mod (window_size st * sample_rate st)))
          mod int (sample_rate st * buffer_size st)"
  have pos: "0 < int (sample_rate st * buffer_size st)" using m by linarith
  have "0 \<le> x" "x < int (sample_rate st * buffer_size st)"
    unfolding x_def using pos by (rule pos_mod_sign, rule pos_mod_bound)
  then have "nat x < sample_rate st * buffer_size st" by linarith
  then show ?thesis by (simp only: render_slot_def x_def)
qed

lemma render_slice_lengths:
  assumes "0 < sample_rate st * buffer_size st"
    and "wf_buffer st"
    and "2 \<le> window_size st * sample_rate st"
    and "0 < downsampling_factor st"
  shows "\<exists>out. render_slice st = Inr out \<and> length out = length (window_buffer st) \<and>
     (\<forall>c<length (window_buffer st).
        length (out ! c) =
          (window_size st * sample_rate st + downsampling_factor st - 1) div downsampling_factor st \<and>
        (downsampling_factor st dvd window_size st * sample_rate st \<longrightarrow>
           length (out ! c) = window_size st * sample_rate st div downsampling_factor st) \<and>
        (\<forall>p<length (out ! c).
           out ! c ! p = window_buffer st ! c ! render_slot st (p * downsampling_factor st)) \<and>
        (list_all (\<lambda>x. x = None) (window_buffer st ! c) \<longrightarrow> list_all (\<lambda>x. x = None) (out ! c)))"
proof -
  let ?W = "window_size st * sample_rate st"
  let ?d = "downsampling_factor st"
  from render_slice_cells[OF assms] obtain out where
    r: "render_slice st = Inr out" and n: "length out = length (window_buffer st)"
    and cells: "\<And>c. c < length (window_buffer st) \<Longrightarrow>
        length (out ! c) = (?W + ?d - 1) div ?d \<and>
        (\<forall>p<length (out ! c). out ! c ! p = window_buffer st ! c ! render_slot st (p * ?d))"
    by blast
  have "length (out ! c) = (?W + ?d - 1) div ?d \<and>
        (?d dvd ?W \<longrightarrow> length (out ! c) = ?W div ?d) \<and>
        (\<forall>p<length (out ! c). out ! c ! p = window_buffer st ! c ! render_slot st (p * ?d)) \<and>
        (list_all (\<lambda>x. x = None) (window_buffer st ! c) \<longrightarrow> list_all (\<lambda>x. x = None) (out ! c))"
    if c: "c < length (window_buffer st)" for c
  proof (intro conjI impI)
    show len: "length (out ! c) = (?W + ?d - 1) div ?d" using cells[OF c] by blast
    show pass: "\<forall>p<length (out ! c). out ! c ! p = window_buffer st ! c ! render_slot st (p * ?d)"
      using cells[OF c] by blast
    { assume "?d dvd ?W"
      then show "length (out ! c) = ?W div ?d"
        using len ceil_div_of_dvd[OF assms(4)] by simp }
    { assume blank: "list_all (\<lambda>x. x = None) (window_buffer st ! c)"
      have rowlen: "length (window_buffer st ! c) = sample_rate st * buffer_size st"
        using assms(2) c by (simp add: wf_buffer_def list_all_iff)
      have "out ! c ! p = None" if p: "p < length (out ! c)" for p
      proof -
        have "render_slot st (p * ?d) < length (window_buffer st ! c)"
          unfolding rowlen using assms(1) by (rule render_slot_less)
        then have "window_buffer st ! c ! render_slot st (p * ?d) = None"
          using blank by (simp add: list_all_length)
        with pass p show ?thesis by simp
      qed
      then show "list_all (\<lambda>x. x = None) (out ! c)" by (simp add: list_all_length) }
  qed
  with r n show ?thesis by blast
qed

section \<open>Lemmas on the rendering after a list of writes\<close>

lemma sweep_order_rotate: "sp < length xs \<Longrightarrow> sweep_order sp xs = rotate sp xs"
  by (simp add: sweep_order_def rotate_drop_take)

lemma stride_sweep_map:
  assumes d: "0 < d" and sp: "sp \<le> length xs"
  shows "stride d (sweep_order sp (map f xs)) =
     map (\<lambda>p. f (xs ! ((sp + p * d) mod length xs))) [0..<(length xs + d - 1) div d]"
proof (rule nth_equalityI)
  show "length (stride d (sweep_order sp (map f xs))) =
      length (map (\<lambda>p. f (xs ! ((sp + p * d) mod length xs))) [0..<(length xs + d - 1) div d])"
    by (simp add: length_stride length_sweep_order)
next
  fix p assume "p < length (stride d (sweep_order sp (map f xs)))"
  then have p: "p < (length xs + d - 1) div d"
    by (simp add: length_stride length_sweep_order)
  have pd: "p * d < length xs" using d p by (rule stride_index_in_range)
  then have pos: "0 < length xs" by linarith
  have k: "(sp + p * d) mod length xs < length xs" using pos by simp
  have "stride d (sweep_order sp (map f xs)) ! p = sweep_order sp (map f xs) ! (p * d)"
    using p by (intro nth_stride) (simp add: length_stride length_sweep_order)
  also have "\<dots> = map f xs ! ((sp + p * d) mod length (map f xs))"
    using sp pd by (intro nth_sweep_order) simp_all
  also have "\<dots> = f (xs ! ((sp + p * d) mod length xs))"
    using k by simp
  finally show "stride d (sweep_order sp (map f xs)) ! p =
      map (\<lambda>p. f (xs ! ((sp + p * d) mod length xs))) [0..<(length xs + d - 1) div d] ! p"
    using p by simp
qed

lemma render_after_writes:
  assumes seen: "samples_seen st0 = 0"
    and buf: "window_buffer st0 = replicate C (replicate (sample_rate st0 * buffer_size st0) None)"
    and w: "0 < white_out st0"
    and Wm: "window_size st0 \<le> buffer_size st0"
    and d: "0 < downsampling_factor st0"
    and fits: "list_all (block_fits C (white_out st0) (sample_rate st0 * buffer_size st0)) q"
  shows "\<exists>st. write_all q st0 = Inr st \<and> samples_seen st = sum_list (map num_sample_sets q) \<and>
     same_config st0 st \<and>
     render_slice st =
       Inr (map (\<lambda>c. stride (downsampling_factor st0)
                    (sweep_order (split_position st)
                       (map (logical_cell (channel_stream q c)) (window_indices st))))
              [0..<C])"
proof -
  have W25: "25 \<le> window_size st0 * sample_rate st0" using w by (rule white_out_positive)
  then have "0 < window_size st0 * sample_rate st0" by linarith
  then have pos: "0 < window_size st0" "0 < sample_rate st0" by simp_all
  then have m: "0 < sample_rate st0 * buffer_size st0" using Wm by simp
  have len: "length (window_buffer st0) = C" by (simp add: buf)
  have tr0: "tracks [] st0" using m buf seen by (rule tracks_fresh)
  have fits': "list_all (block_fits (length (window_buffer st0)) (white_out st0)
                 (sample_rate st0 * buffer_size st0)) q"
    using fits by (simp only: len)
  from write_all_tracks[OF m w fits' tr0] obtain st where
    wa: "write_all q st0 = Inr st" and tr: "tracks q st" and cfg: "same_config st0 st"
    by auto
  have f: "sample_rate st = sample_rate st0" "window_size st = window_size st0"
    "buffer_size st = buffer_size st0" "downsampling_factor st = downsampling_factor st0"
    "length (window_buffer st) = C"
    using cfg len by (simp_all add: same_config_def)
  have "render_slice st =
     Inr (map (\<lambda>c. stride (downsampling_factor st)
                  (sweep_order (split_position st)
                     (map (logical_cell (channel_stream q c)) (window_indices st))))
            [0..<length (window_buffer st)])"
    using m W25 Wm d tr by (intro render_slice_tracks) (simp_all add: f)
  then have r: "render_slice st =
     Inr (map (\<lambda>c. stride (downsampling_factor st0)
                  (sweep_order (split_position st)
                     (map (logical_cell (channel_stream q c)) (window_indices st))))
            [0..<C])"
    by (simp only: f)
  have s: "samples_seen st = sum_list (map num_sample_sets q)"
    using tr by (simp add: tracks_def)
  from wa s cfg r show ?thesis by blast
qed

lemma render_after_writes_cells:
  assumes seen: "samples_seen st0 = 0"
    and buf: "window_buffer st0 = replicate C (replicate (sample_rate st0 * buffer_size st0) None)"
    and w: "0 < white_out st0"
    and Wm: "window_size st0 \<le> buffer_size st0"
    and d: "0 < downsampling_factor st0"
    and fits: "list_all (block_fits C (white_out st0) (sample_rate st0 * buffer_size st0)) q"
    and S: "S = sum_list (map num_sample_sets q)"
    and W: "W = window_size st0 * sample_rate st0"
    and a: "a = int (S + white_out st0) - int W"
    and sp: "sp = nat ((1 - a) mod int W)"
  shows "\<exists>st. write_all q st0 = Inr st \<and> samples_seen st = S \<and>
     render_slice st =
       Inr (map (\<lambda>c. map (\<lambda>p. logical_cell (channel_stream q c)
                               (a + int ((sp + p * downsampling_factor st0) mod W)))
                    [0..<(W + downsampling_factor st0 - 1) div downsampling_factor st0])
              [0..<C])"
proof -
  from render_after_writes[OF seen buf w Wm d fits] obtain st where
    wa: "write_all q st0 = Inr st" and s: "samples_seen st = S" and cfg: "same_config st0 st"
    and r: "render_slice st =
       Inr (map (\<lambda>c. stride (downsampling_factor st0)
                    (sweep_order (split_position st)
                       (map (logical_cell (channel_stream q c)) (window_indices st))))
              [0..<C])"
    unfolding S by blast
  have f: "window_size st = window_size st0" "sample_rate st = sample_rate st0"
    "white_out st = white_out st0"
    using cfg same_config_white_out[OF cfg] by (simp_all add: same_config_def)
  have W25: "25 \<le> W" unfolding W using w by (rule white_out_positive)
  have Wst: "window_size st * sample_rate st = W" by (simp add: f W)
  have spst: "split_position st = sp"
    by (simp only: split_position_def f s sp a W)
  have wl: "length (window_indices st) = W" by (simp only: length_window_indices Wst)
  have spW: "sp < W"
    using split_position_less[of st] W25 unfolding Wst spst by simp
  have nthw: "window_indices st ! k = a + int k" if "k < W" for k
    using nth_window_indices[of k st] that unfolding Wst
    by (simp only: f s a W)
  have row: "stride (downsampling_factor st0)
       (sweep_order (split_position st) (map g (window_indices st))) =
     map (\<lambda>p. g (a + int ((sp + p * downsampling_factor st0) mod W)))
       [0..<(W + downsampling_factor st0 - 1) div downsampling_factor st0]" for g :: "int \<Rightarrow> 'a option"
  proof -
    have "stride (downsampling_factor st0)
       (sweep_order sp (map g (window_indices st))) =
     map (\<lambda>p. g (window_indices st ! ((sp + p * downsampling_factor st0) mod length (window_indices st))))
       [0..<(length (window_indices st) + downsampling_factor st0 - 1) div downsampling_factor st0]"
      using d spW by (intro stride_sweep_map) (simp_all add: wl)
    also have "\<dots> = map (\<lambda>p. g (a + int ((sp + p * downsampling_factor st0) mod W)))
       [0..<(W + downsampling_factor st0 - 1) div downsampling_factor st0]"
      unfolding wl using W25 by (intro map_cong[OF refl]) (simp add: nthw)
    finally show ?thesis unfolding spst .
  qed
  from wa s r show ?thesis unfolding row by blast
qed

lemma block_row_index_block: "block_row (index_block k b) 0 = [b * k..<b * k + k]"
  by (rule nth_equalityI) (simp_all add: block_row_def index_block_def)

lemma channel_stream_index_blocks:
  "channel_stream (map (index_block k) [0..<n]) 0 = [0..<n * k]"
proof (induction n)
  case 0
  show ?case by (simp add: channel_stream_def)
next
  case (Suc n)
  have "[0..<n * k + k] = [0..<n * k] @ [n * k..<n * k + k]"
    by (rule upt_add_eq_append) simp
  then show ?case
    using Suc by (simp add: channel_stream_snoc block_row_index_block add.commute)
qed

lemma sum_index_blocks:
  "sum_list (map num_sample_sets (map (index_block k) [0..<n])) = n * k"
  by (induction n) (simp_all add: index_block_def)

lemma index_blocks_fit:
  "k + w \<le> m \<Longrightarrow> list_all (block_fits 1 w m) (map (index_block k) [0..<n])"
  by (simp add: list_all_iff block_fits_def index_block_def)

lemma logical_cell_upt:
  "logical_cell [0..<n] (int j) = (if j < n then Some j else None)"
  by (simp add: logical_cell_def)

section \<open>The rendered window after writes that wrap the ring\<close>

text \<open>
  Claim C1, amended. Start from a buffer that holds \<open>nan\<close> only, with a white-out of at least
  one slot, a window no longer than the buffer and a positive downsampling factor, and write
  any list of blocks, each with one sample per row in a sample set and short enough to fit the
  ring with its white-out; the blocks may lap the ring any number of times. Then every write
  succeeds, and \<^verbatim>\<open>render_slice\<close> returns for every channel the cells of the absolute indices
  \<open>[S + w - W, S + w)\<close> (the delivered sample inside \<open>[0, S)\<close>, \<open>nan\<close> outside, so the newest
  \<open>W - w\<close> samples and the white-out), each once, but not in logical time order: the window
  is rotated to start at the index that is 1 modulo \<open>W\<close> (the later run first, the earlier run
  after it), and then every \<open>d\<close>-th cell is taken. The wrap of the ring itself leaves no trace.
\<close>

theorem render_slice_after_writes:
  assumes "samples_seen st0 = 0"
    and "window_buffer st0 = replicate C (replicate (sample_rate st0 * buffer_size st0) None)"
    and "0 < white_out st0"
    and "window_size st0 \<le> buffer_size st0"
    and "0 < downsampling_factor st0"
    and "list_all (block_fits C (white_out st0) (sample_rate st0 * buffer_size st0)) q"
  shows "\<exists>st. write_all q st0 = Inr st \<and> samples_seen st = sum_list (map num_sample_sets q) \<and>
     same_config st0 st \<and>
     window_indices st =
       [int (sum_list (map num_sample_sets q) + white_out st0)
          - int (window_size st0 * sample_rate st0)
        .. int (sum_list (map num_sample_sets q) + white_out st0) - 1] \<and>
     split_position st < window_size st0 * sample_rate st0 \<and>
     render_slice st =
       Inr (map (\<lambda>c. stride (downsampling_factor st0)
                    (rotate (split_position st)
                       (map (logical_cell (channel_stream q c)) (window_indices st))))
              [0..<C])"
proof -
  from render_after_writes[OF assms] obtain st where
    wa: "write_all q st0 = Inr st" and s: "samples_seen st = sum_list (map num_sample_sets q)"
    and cfg: "same_config st0 st"
    and r: "render_slice st =
       Inr (map (\<lambda>c. stride (downsampling_factor st0)
                    (sweep_order (split_position st)
                       (map (logical_cell (channel_stream q c)) (window_indices st))))
              [0..<C])"
    by blast
  have f: "window_size st = window_size st0" "sample_rate st = sample_rate st0"
    "white_out st = white_out st0"
    using cfg same_config_white_out[OF cfg] by (simp_all add: same_config_def)
  have "25 \<le> window_size st0 * sample_rate st0" using assms(3) by (rule white_out_positive)
  then have "0 < window_size st0 * sample_rate st0" by linarith
  then have "0 < window_size st * sample_rate st" by (simp only: f)
  then have sp: "split_position st < window_size st * sample_rate st"
    by (rule split_position_less)
  have wi: "window_indices st =
       [int (sum_list (map num_sample_sets q) + white_out st0)
          - int (window_size st0 * sample_rate st0)
        .. int (sum_list (map num_sample_sets q) + white_out st0) - 1]"
    by (simp only: window_indices_def f s)
  have "sweep_order (split_position st) (map g (window_indices st))
      = rotate (split_position st) (map g (window_indices st))" for g :: "int \<Rightarrow> 'a option"
    using sp by (intro sweep_order_rotate) (simp add: length_window_indices)
  with r have r': "render_slice st =
       Inr (map (\<lambda>c. stride (downsampling_factor st0)
                    (rotate (split_position st)
                       (map (logical_cell (channel_stream q c)) (window_indices st))))
              [0..<C])"
    by simp
  from wa s cfg wi sp r' show ?thesis unfolding f by blast
qed

lemma initUI_500_fresh:
  "samples_seen (initUI 500 1 :: nat plotter) = 0"
  "window_buffer (initUI 500 1 :: nat plotter) =
     replicate 1 (replicate (sample_rate (initUI 500 1 :: nat plotter)
                               * buffer_size (initUI 500 1 :: nat plotter)) None)"
  "0 < white_out (initUI 500 1 :: nat plotter)"
  "window_size (initUI 500 1 :: nat plotter) \<le> buffer_size (initUI 500 1 :: nat plotter)"
  "0 < downsampling_factor (initUI 500 1 :: nat plotter)"
  "list_all (block_fits 1 (white_out (initUI 500 1 :: nat plotter))
       (sample_rate (initUI 500 1 :: nat plotter) * buffer_size (initUI 500 1 :: nat plotter)))
     (map (index_block 1000) [0..<6])"
  using index_blocks_fit[of 1000 100 5000 6]
  by (simp_all add: initUI_def white_out_def)

theorem render_slice_after_writes_witness:
  "\<exists>st. write_all (map (index_block 1000) [0..<6]) (initUI 500 1 :: nat plotter) = Inr st \<and>
     samples_seen st = 6000 \<and>
     window_indices st = [3600..6099] \<and>
     render_slice st =
       Inr [stride 1 (rotate (split_position st) (map (logical_cell [0..<6000]) [3600..6099]))]"
proof -
  from render_slice_after_writes[OF initUI_500_fresh] obtain st where
    wa: "write_all (map (index_block 1000) [0..<6]) (initUI 500 1 :: nat plotter) = Inr st"
    and s: "samples_seen st = sum_list (map num_sample_sets (map (index_block 1000) [0..<6]))"
    and wi: "window_indices st =
       [int (sum_list (map num_sample_sets (map (index_block 1000) [0..<6]))
              + white_out (initUI 500 1 :: nat plotter))
          - int (window_size (initUI 500 1 :: nat plotter) * sample_rate (initUI 500 1 :: nat plotter))
        .. int (sum_list (map num_sample_sets (map (index_block 1000) [0..<6]))
              + white_out (initUI 500 1 :: nat plotter)) - 1]"
    and r: "render_slice st =
       Inr (map (\<lambda>c. stride (downsampling_factor (initUI 500 1 :: nat plotter))
                    (rotate (split_position st)
                       (map (logical_cell (channel_stream (map (index_block 1000) [0..<6]) c))
                          (window_indices st))))
              [0..<1])"
    by blast
  have sum6: "sum_list (map num_sample_sets (map (index_block 1000) [0..<6])) = 6000"
    using sum_index_blocks[of 1000 6] by simp
  have s': "samples_seen st = 6000" using s by (simp only: sum6)
  have wi': "window_indices st = [3600..6099]"
    using wi unfolding sum6 by (simp add: initUI_def white_out_def)
  have cs: "channel_stream (map (index_block 1000) [0..<6]) 0 = [0..<6000]"
    by (simp add: channel_stream_index_blocks)
  have r': "render_slice st =
       Inr [stride 1 (rotate (split_position st) (map (logical_cell [0..<6000]) [3600..6099]))]"
    using r by (simp add: cs wi' initUI_def)
  from wa s' wi' r' show ?thesis by blast
qed

text \<open>
  The claim as stated fails: at 500 samples per second (buffer of 5000, window of 2500,
  white-out of 100, no decimation), after six blocks of 1000 samples whose values are their
  logical indices, the rendered row starts with sample 5001 and ends with sample 5000; in
  between come samples up to 5999, the white-out, and the samples from 3600 on. Logical time
  order would start with sample 3500 (the newest 2500 samples) or 3600 (the index range).
\<close>

theorem logical_order_counterexample:
  "\<exists>st out. write_all (map (index_block 1000) [0..<6]) (initUI 500 1 :: nat plotter) = Inr st \<and>
     samples_seen st = 6000 \<and> render_slice st = Inr out \<and>
     out ! 0 ! 0 = Some 5001 \<and> out ! 0 ! 998 = Some 5999 \<and> out ! 0 ! 999 = None \<and>
     out ! 0 ! 1098 = None \<and> out ! 0 ! 1099 = Some 3600 \<and> out ! 0 ! 2499 = Some 5000 \<and>
     out ! 0 \<noteq> map Some [3500..<6000] \<and>
     out ! 0 \<noteq> map (logical_cell [0..<6000]) [3600..6099]"
proof -
  let ?g = "\<lambda>p. logical_cell (channel_stream (map (index_block 1000) [0..<6]) 0)
              (3600 + int ((1401 + p * downsampling_factor (initUI 500 1 :: nat plotter)) mod 2500))"
  have S: "6000 = sum_list (map num_sample_sets (map (index_block 1000) [0..<6]))"
    using sum_index_blocks[of 1000 6] by simp
  have W: "2500 = window_size (initUI 500 1 :: nat plotter) * sample_rate (initUI 500 1 :: nat plotter)"
    by (simp add: initUI_def)
  have a: "(3600::int) = int (6000 + white_out (initUI 500 1 :: nat plotter)) - int 2500"
    by (simp add: initUI_def white_out_def)
  have sp: "(1401::nat) = nat ((1 - 3600) mod int 2500)" by simp
  from render_after_writes_cells[OF initUI_500_fresh S W a sp] obtain st where
    wa: "write_all (map (index_block 1000) [0..<6]) (initUI 500 1 :: nat plotter) = Inr st"
    and s: "samples_seen st = 6000"
    and r: "render_slice st =
       Inr (map (\<lambda>c. map (\<lambda>p. logical_cell (channel_stream (map (index_block 1000) [0..<6]) c)
              (3600 + int ((1401 + p * downsampling_factor (initUI 500 1 :: nat plotter)) mod 2500)))
                    [0..<(2500 + downsampling_factor (initUI 500 1 :: nat plotter) - 1)
                          div downsampling_factor (initUI 500 1 :: nat plotter)])
              [0..<1])"
    by blast
  define row where "row = map (\<lambda>p. logical_cell [0..<6000] (3600 + int ((1401 + p) mod 2500))) [0..<2500]"
  have r': "render_slice st = Inr [row]"
    using r by (simp add: channel_stream_index_blocks initUI_def row_def)
  have cell: "row ! p = logical_cell [0..<6000] (3600 + int ((1401 + p) mod 2500))"
    if "p < 2500" for p
    using that by (simp add: row_def)
  have c0: "row ! 0 = Some 5001" by (simp add: cell logical_cell_def)
  have c998: "row ! 998 = Some 5999" by (simp add: cell logical_cell_def)
  have c999: "row ! 999 = None" by (simp add: cell logical_cell_def)
  have c1098: "row ! 1098 = None" by (simp add: cell logical_cell_def)
  have c1099: "row ! 1099 = Some 3600" by (simp add: cell logical_cell_def)
  have c2499: "row ! 2499 = Some 5000" by (simp add: cell logical_cell_def)
  have n1: "row \<noteq> map Some [3500..<6000]"
  proof
    assume "row = map Some [3500..<6000]"
    then have "row ! 0 = map Some [3500..<6000] ! 0" by simp
    then show False using c0 by simp
  qed
  have n2: "row \<noteq> map (logical_cell [0..<6000]) [3600..6099]"
  proof
    assume "row = map (logical_cell [0..<6000]) [3600..6099]"
    then have "row ! 0 = map (logical_cell [0..<6000]) [3600..6099] ! 0" by simp
    then show False using c0 by (simp add: logical_cell_def)
  qed
  from wa s r' c0 c998 c999 c1098 c1099 c2499 n1 n2 show ?thesis
    by (intro exI[of _ st] exI[of _ "[row]"]) simp
qed

section \<open>The scenario of 12000 samples\<close>

lemma scenario_fresh:
  "samples_seen ((initUI 1000 1 :: nat plotter)\<lparr> downsampling_factor := 1 \<rparr>) = 0"
  "window_buffer ((initUI 1000 1 :: nat plotter)\<lparr> downsampling_factor := 1 \<rparr>) =
     replicate 1 (replicate (sample_rate ((initUI 1000 1 :: nat plotter)\<lparr> downsampling_factor := 1 \<rparr>)
                    * buffer_size ((initUI 1000 1 :: nat plotter)\<lparr> downsampling_factor := 1 \<rparr>)) None)"
  "0 < white_out ((initUI 1000 1 :: nat plotter)\<lparr> downsampling_factor := 1 \<rparr>)"
  "window_size ((initUI 1000 1 :: nat plotter)\<lparr> downsampling_factor := 1 \<rparr>)
     \<le> buffer_size ((initUI 1000 1 :: nat plotter)\<lparr> downsampling_factor := 1 \<rparr>)"
  "0 < downsampling_factor ((initUI 1000 1 :: nat plotter)\<lparr> downsampling_factor := 1 \<rparr>)"
  "list_all (block_fits 1 (white_out ((initUI 1000 1 :: nat plotter)\<lparr> downsampling_factor := 1 \<rparr>))
       (sample_rate ((initUI 1000 1 :: nat plotter)\<lparr> downsampling_factor := 1 \<rparr>)
          * buffer_size ((initUI 1000 1 :: nat plotter)\<lparr> downsampling_factor := 1 \<rparr>)))
     (map (index_block 1000) [0..<12])"
  using index_blocks_fit[of 1000 200 10000 12]
  by (simp_all add: initUI_def white_out_def)

lemma scenario_row:
  "map (\<lambda>p. logical_cell [0..<12000] (7200 + int ((2801 + p) mod 5000))) [0..<5000] =
     map Some [10001..<12000] @ replicate 200 None @ map Some [7200..<10001]"
proof (rule nth_equalityI)
  show "length (map (\<lambda>p. logical_cell [0..<12000] (7200 + int ((2801 + p) mod 5000))) [0..<5000]) =
      length (map Some [10001..<12000] @ replicate 200 None @ map Some [7200..<10001])"
    by simp
next
  fix p
  assume "p < length (map (\<lambda>p. logical_cell [0..<12000] (7200 + int ((2801 + p) mod 5000))) [0..<5000])"
  then have p: "p < 5000" by simp
  let ?rhs = "map Some [10001..<12000] @ replicate 200 None @ map Some [7200..<10001]"
  have lhs: "map (\<lambda>p. logical_cell [0..<12000] (7200 + int ((2801 + p) mod 5000))) [0..<5000] ! p
      = logical_cell [0..<12000] (int (7200 + (2801 + p) mod 5000))"
    using p by simp
  consider (new) "p < 1999" | (gap) "1999 \<le> p" "p < 2199" | (old) "2199 \<le> p" by linarith
  then have "logical_cell [0..<12000] (int (7200 + (2801 + p) mod 5000)) = ?rhs ! p"
  proof cases
    case new
    then have "(2801 + p) mod 5000 = 2801 + p" by simp
    then have "logical_cell [0..<12000] (int (7200 + (2801 + p) mod 5000)) = Some (10001 + p)"
      using new by (simp only: logical_cell_upt) simp
    moreover have "?rhs ! p = Some (10001 + p)" using new by (simp add: nth_append)
    ultimately show ?thesis by simp
  next
    case gap
    then have "(2801 + p) mod 5000 = 2801 + p" by simp
    then have "logical_cell [0..<12000] (int (7200 + (2801 + p) mod 5000)) = None"
      using gap by (simp only: logical_cell_upt) simp
    moreover have "?rhs ! p = None"
    proof -
      have i: "p - 1999 < 200" and n: "\<not> p < 1999" using gap by linarith+
      have "?rhs ! p = (replicate 200 None @ map Some [7200..<10001]) ! (p - 1999)"
        using n by (simp add: nth_append)
      also have "\<dots> = replicate 200 None ! (p - 1999)"
        using i by (simp only: nth_append length_replicate if_True)
      also have "\<dots> = None" using i by (rule nth_replicate)
      finally show ?thesis .
    qed
    ultimately show ?thesis by simp
  next
    case old
    have "(2801 + p) mod 5000 = (2801 + p - 5000) mod 5000"
      using old by (intro le_mod_geq) simp
    also have "\<dots> = p - 2199" using old p by simp
    finally have "logical_cell [0..<12000] (int (7200 + (2801 + p) mod 5000)) = Some (7200 + (p - 2199))"
      using p by (simp only: logical_cell_upt) simp
    moreover have "?rhs ! p = Some (7200 + (p - 2199))" using old p by (simp add: nth_append)
    ultimately show ?thesis by simp
  qed
  with lhs show "map (\<lambda>p. logical_cell [0..<12000] (7200 + int ((2801 + p) mod 5000))) [0..<5000] ! p
      = ?rhs ! p"
    by simp
qed

lemma scenario_render:
  "\<exists>st. write_all (map (index_block 1000) [0..<12])
           ((initUI 1000 1 :: nat plotter)\<lparr> downsampling_factor := 1 \<rparr>) = Inr st \<and>
     samples_seen st = 12000 \<and>
     render_slice st =
       Inr [map Some [10001..<12000] @ replicate 200 None @ map Some [7200..<10001]]"
proof -
  let ?st0 = "(initUI 1000 1 :: nat plotter)\<lparr> downsampling_factor := 1 \<rparr>"
  have S: "12000 = sum_list (map num_sample_sets (map (index_block 1000) [0..<12]))"
    using sum_index_blocks[of 1000 12] by simp
  have W: "5000 = window_size ?st0 * sample_rate ?st0"
    by (simp add: initUI_def)
  have a: "(7200::int) = int (12000 + white_out ?st0) - int 5000"
    by (simp add: initUI_def white_out_def)
  have sp: "(2801::nat) = nat ((1 - 7200) mod int 5000)" by simp
  from render_after_writes_cells[OF scenario_fresh S W a sp] obtain st where
    wa: "write_all (map (index_block 1000) [0..<12]) ?st0 = Inr st"
    and s: "samples_seen st = 12000"
    and r: "render_slice st =
       Inr (map (\<lambda>c. map (\<lambda>p. logical_cell (channel_stream (map (index_block 1000) [0..<12]) c)
              (7200 + int ((2801 + p * downsampling_factor ?st0) mod 5000)))
                    [0..<(5000 + downsampling_factor ?st0 - 1) div downsampling_factor ?st0])
              [0..<1])"
    by blast
  have "render_slice st =
      Inr [map (\<lambda>p. logical_cell [0..<12000] (7200 + int ((2801 + p) mod 5000))) [0..<5000]]"
    using r by (simp add: channel_stream_index_blocks initUI_def)
  then have "render_slice st =
       Inr [map Some [10001..<12000] @ replicate 200 None @ map Some [7200..<10001]]"
    by (simp only: scenario_row)
  with wa s show ?thesis by blast
qed

text \<open>
  Claim C2, amended. At 1000 samples per second, a buffer of 10 s, a window of 5 s and the
  downsampling factor set to 1, after 12 blocks of 1000 samples (the values are the logical
  indices) \<^verbatim>\<open>render_slice\<close> returns 5000 cells: the samples 10001 to 11999, then 200 cells of
  white-out, then the samples 7200 to 10000.
\<close>

theorem scenario_12000_samples:
  "\<exists>st. write_all (map (index_block 1000) [0..<12])
           ((initUI 1000 1 :: nat plotter)\<lparr> downsampling_factor := 1 \<rparr>) = Inr st \<and>
     samples_seen st = 12000 \<and>
     render_slice st =
       Inr [map Some [10001..<12000] @ replicate 200 None @ map Some [7200..<10001]]"
  by (rule scenario_render)

text \<open>The claim as stated fails: the rendered row is not the samples 7000 to 11999 in order;
  its first cell is sample 10001.\<close>

theorem scenario_12000_samples_counterexample:
  "\<exists>st out. write_all (map (index_block 1000) [0..<12])
           ((initUI 1000 1 :: nat plotter)\<lparr> downsampling_factor := 1 \<rparr>) = Inr st \<and>
     samples_seen st = 12000 \<and> render_slice st = Inr out \<and>
     out ! 0 ! 0 = Some 10001 \<and> out \<noteq> [map Some [7000..<12000]]"
proof -
  from scenario_render obtain st where
    wa: "write_all (map (index_block 1000) [0..<12])
           ((initUI 1000 1 :: nat plotter)\<lparr> downsampling_factor := 1 \<rparr>) = Inr st"
    and s: "samples_seen st = 12000"
    and r: "render_slice st =
       Inr [map Some [10001..<12000] @ replicate 200 None @ map Some [7200..<10001]]"
    by blast
  let ?row = "map Some [10001..<12000] @ replicate 200 None @ map Some [7200..<10001 :: nat]"
  have c0: "?row ! 0 = Some 10001" by (simp add: nth_append)
  have ne: "[?row] \<noteq> [map Some [7000..<12000]]"
  proof
    assume "[?row] = [map Some [7000..<12000]]"
    then have "?row ! 0 = map Some [7000..<12000] ! 0" by simp
    then show False unfolding c0 by simp
  qed
  from wa s r c0 ne show ?thesis
    by (intro exI[of _ st] exI[of _ "[?row]"]) simp
qed

section \<open>The states that the program reaches\<close>

lemma device_rate_facts:
  assumes "r \<in> set device_rates"
  shows "500 \<le> r" and "0 < r div 500" and "r div 500 dvd r"
  using assms by (auto simp: device_rates_def)

lemma plotter_ok_facts:
  assumes "plotter_ok st"
  shows "0 < sample_rate st * buffer_size st"
    and "wf_buffer st"
    and "500 \<le> window_size st * sample_rate st"
    and "0 < downsampling_factor st"
    and "downsampling_factor st dvd window_size st * sample_rate st"
    and "0 < white_out st"
proof -
  from assms have r: "sample_rate st \<in> set device_rates"
    and d: "downsampling_factor st = sample_rate st div 500"
    and lo: "1 \<le> window_size st" and hi: "window_size st \<le> buffer_size st"
    and wf: "wf_buffer st"
    by (simp_all add: plotter_ok_def)
  note f = device_rate_facts[OF r]
  show "wf_buffer st" by (rule wf)
  have "0 < sample_rate st" "0 < buffer_size st" using f(1) lo hi by linarith+
  then show "0 < sample_rate st * buffer_size st" by simp
  have "sample_rate st \<le> window_size st * sample_rate st"
    using lo by simp
  with f(1) show W: "500 \<le> window_size st * sample_rate st" by linarith
  show "0 < downsampling_factor st" using f(2) by (simp only: d)
  show "downsampling_factor st dvd window_size st * sample_rate st"
    using f(3) by (simp only: d dvd_mult)
  have "2000 div 100 \<le> (window_size st * sample_rate st * 4) div 100"
    using W by (intro div_le_mono) linarith
  then show "0 < white_out st" by (simp add: white_out_def)
qed

lemma plotter_ok_initUI: "rate \<in> set device_rates \<Longrightarrow> plotter_ok (initUI rate C)"
  unfolding plotter_ok_def using wf_buffer_initUI[of rate C] by (simp add: initUI_def)

lemma plotter_ok_write_block:
  assumes "plotter_ok st" and "write_block sd st = Inr st'"
  shows "plotter_ok st'"
  using assms(1) write_block_fields[OF assms(2)] write_block_wf[OF assms(2)]
  by (simp add: plotter_ok_def)

lemma plotter_ok_buttons:
  assumes "window_ok g" and "plotter_ok (worker g)"
  shows "plotter_ok (worker (decrease_time_range g))"
    and "plotter_ok (worker (increase_time_range g))"
  using assms
  by (auto simp: window_ok_def plotter_ok_def decrease_time_range_def increase_time_range_def
        wf_buffer_def)

section \<open>The effect of a write\<close>

lemma write_block_slots:
  assumes m: "0 < sample_rate st * buffer_size st"
    and wf: "wf_buffer st"
    and w: "0 < white_out st"
    and fits: "block_fits (length (window_buffer st)) (white_out st)
                 (sample_rate st * buffer_size st) sd"
  shows "\<exists>st'. write_block sd st = Inr st' \<and>
     samples_seen st' = samples_seen st + num_sample_sets sd \<and>
     same_config st st' \<and>
     (\<forall>c<length (window_buffer st).
        (\<forall>i<num_sample_sets sd.
           window_buffer st' ! c ! ((samples_seen st + i) mod (sample_rate st * buffer_size st))
             = Some (block_row sd c ! i)) \<and>
        (\<forall>i. num_sample_sets sd \<le> i \<and> i < num_sample_sets sd + white_out st \<longrightarrow>
           window_buffer st' ! c ! ((samples_seen st + i) mod (sample_rate st * buffer_size st))
             = None) \<and>
        (\<forall>q<sample_rate st * buffer_size st.
           (\<forall>i<num_sample_sets sd + white_out st.
              q \<noteq> (samples_seen st + i) mod (sample_rate st * buffer_size st)) \<longrightarrow>
           window_buffer st' ! c ! q = window_buffer st ! c ! q))"
proof -
  let ?m = "sample_rate st * buffer_size st"
  let ?k = "num_sample_sets sd"
  let ?R = "\<lambda>c. write_row ?m (samples_seen st) (white_out st) (window_buffer st ! c)
                 (block_row sd c)"
  let ?st' = "st\<lparr> window_buffer := map ?R [0..<length (window_buffer st)],
               samples_seen := samples_seen st + num_sample_sets sd \<rparr>"
  have wb: "write_block sd st = Inr ?st'"
    using m wf w fits by (intro write_block_rows) (simp_all add: block_fits_def)
  have cells:
    "(\<forall>i<?k. ?R c ! ((samples_seen st + i) mod ?m) = Some (block_row sd c ! i)) \<and>
     (\<forall>i. ?k \<le> i \<and> i < ?k + white_out st \<longrightarrow> ?R c ! ((samples_seen st + i) mod ?m) = None) \<and>
     (\<forall>q<?m. (\<forall>i<?k + white_out st. q \<noteq> (samples_seen st + i) mod ?m) \<longrightarrow>
        ?R c ! q = window_buffer st ! c ! q)"
    if c: "c < length (window_buffer st)" for c
  proof -
    have len: "length (window_buffer st ! c) = ?m"
      using wf c by (simp add: wf_buffer_def list_all_iff)
    have fit: "length (block_row sd c) + white_out st \<le> ?m"
      using fits by (simp add: block_fits_def length_block_row)
    have 1: "?R c ! ((samples_seen st + i) mod ?m) = Some (block_row sd c ! i)"
      if "i < ?k" for i
    proof -
      from that have "i < length (block_row sd c)" by (simp add: length_block_row)
      with m fit len show ?thesis by (rule write_row_sample)
    qed
    have 2: "?R c ! ((samples_seen st + i) mod ?m) = None"
      if "?k \<le> i \<and> i < ?k + white_out st" for i
    proof -
      from that have "length (block_row sd c) \<le> i" "i < length (block_row sd c) + white_out st"
        by (simp_all add: length_block_row)
      with m fit len show ?thesis by (rule write_row_nan)
    qed
    have 3: "?R c ! q = window_buffer st ! c ! q"
      if "\<forall>i<?k + white_out st. q \<noteq> (samples_seen st + i) mod ?m" for q
    proof -
      from that have "\<forall>i<length (block_row sd c) + white_out st.
          q \<noteq> (samples_seen st + i) mod ?m"
        by (simp add: length_block_row)
      then show ?thesis by (rule write_row_other)
    qed
    from 1 2 3 show ?thesis by blast
  qed
  have row: "window_buffer ?st' ! c = ?R c" if "c < length (window_buffer st)" for c
    using that by simp
  have all: "\<forall>c<length (window_buffer st).
        (\<forall>i<?k. window_buffer ?st' ! c ! ((samples_seen st + i) mod ?m)
             = Some (block_row sd c ! i)) \<and>
        (\<forall>i. ?k \<le> i \<and> i < ?k + white_out st \<longrightarrow>
           window_buffer ?st' ! c ! ((samples_seen st + i) mod ?m) = None) \<and>
        (\<forall>q<?m. (\<forall>i<?k + white_out st. q \<noteq> (samples_seen st + i) mod ?m) \<longrightarrow>
           window_buffer ?st' ! c ! q = window_buffer st ! c ! q)"
  proof (intro allI impI)
    fix c assume c: "c < length (window_buffer st)"
    show "(\<forall>i<?k. window_buffer ?st' ! c ! ((samples_seen st + i) mod ?m)
             = Some (block_row sd c ! i)) \<and>
        (\<forall>i. ?k \<le> i \<and> i < ?k + white_out st \<longrightarrow>
           window_buffer ?st' ! c ! ((samples_seen st + i) mod ?m) = None) \<and>
        (\<forall>q<?m. (\<forall>i<?k + white_out st. q \<noteq> (samples_seen st + i) mod ?m) \<longrightarrow>
           window_buffer ?st' ! c ! q = window_buffer st ! c ! q)"
      unfolding row[OF c] by (rule cells[OF c])
  qed
  have seen: "samples_seen ?st' = samples_seen st + ?k" by simp
  have cfg: "same_config st ?st'" by (simp add: same_config_def)
  from wb seen cfg all show ?thesis by blast
qed

lemma write_all_seen:
  assumes "0 < sample_rate st * buffer_size st"
    and "wf_buffer st"
    and "0 < white_out st"
    and "list_all (block_fits (length (window_buffer st)) (white_out st)
                 (sample_rate st * buffer_size st)) q"
  shows "\<exists>st'. write_all q st = Inr st' \<and>
     samples_seen st' = samples_seen st + sum_list (map num_sample_sets q)"
  using assms
proof (induction q arbitrary: st)
  case Nil
  then show ?case by simp
next
  case (Cons sd q)
  from Cons.prems have fits: "block_fits (length (window_buffer st)) (white_out st)
                 (sample_rate st * buffer_size st) sd"
    by simp
  from write_block_slots[OF Cons.prems(1,2,3) fits] obtain st1 where
    wr: "write_block sd st = Inr st1"
    and seen: "samples_seen st1 = samples_seen st + num_sample_sets sd"
    and cfg: "same_config st st1"
    by blast
  have f: "sample_rate st1 = sample_rate st" "buffer_size st1 = buffer_size st"
    "length (window_buffer st1) = length (window_buffer st)" "white_out st1 = white_out st"
    using cfg same_config_white_out[OF cfg] by (simp_all add: same_config_def)
  have wf1: "wf_buffer st1" using wr Cons.prems(2) by (rule write_block_wf)
  have "\<exists>st'. write_all q st1 = Inr st' \<and>
     samples_seen st' = samples_seen st1 + sum_list (map num_sample_sets q)"
    using Cons.prems wf1 by (intro Cons.IH) (simp_all add: f)
  then obtain st' where "write_all q st1 = Inr st'"
    "samples_seen st' = samples_seen st1 + sum_list (map num_sample_sets q)"
    by blast
  with wr seen show ?case by simp
qed

text \<open>
  Claim C3. On every state that the program reaches, with \<open>w\<close> the white-out
  \<open>floor (window_size * sample_rate * 0.04)\<close>, a block of \<open>k\<close> samples per channel (one sample
  per buffer row in each sample set, short enough to fit the ring with the white-out) is
  written: the samples of channel \<open>c\<close> go in their order to the ring slots
  \<open>(samples_seen + i) mod bufferSamples\<close> for \<open>i < k\<close> of row \<open>c\<close>, \<open>nan\<close> goes to the slots for
  \<open>k \<le> i < k + w\<close>, every other slot keeps its cell, and \<^verbatim>\<open>samples_seen\<close> advances by
  exactly \<open>k\<close>. The state reached is again one of the program, and every list of such blocks
  is written with \<^verbatim>\<open>samples_seen\<close> advanced by the sum of their lengths, so the counter never
  decreases.
\<close>

theorem write_block_effect:
  assumes "plotter_ok st"
    and "block_fits (length (window_buffer st)) (white_out st)
           (sample_rate st * buffer_size st) sd"
  shows "white_out st = (window_size st * sample_rate st * 4) div 100 \<and>
     (\<exists>st'. write_block sd st = Inr st' \<and>
        samples_seen st' = samples_seen st + num_sample_sets sd \<and>
        plotter_ok st' \<and>
        (\<forall>c<length (window_buffer st).
           (\<forall>i<num_sample_sets sd.
              window_buffer st' ! c ! ((samples_seen st + i) mod (sample_rate st * buffer_size st))
                = Some (block_row sd c ! i)) \<and>
           (\<forall>i. num_sample_sets sd \<le> i \<and> i < num_sample_sets sd + white_out st \<longrightarrow>
              window_buffer st' ! c ! ((samples_seen st + i) mod (sample_rate st * buffer_size st))
                = None) \<and>
           (\<forall>q<sample_rate st * buffer_size st.
              (\<forall>i<num_sample_sets sd + white_out st.
                 q \<noteq> (samples_seen st + i) mod (sample_rate st * buffer_size st)) \<longrightarrow>
              window_buffer st' ! c ! q = window_buffer st ! c ! q))) \<and>
     (\<forall>q. list_all (block_fits (length (window_buffer st)) (white_out st)
                      (sample_rate st * buffer_size st)) q \<longrightarrow>
        (\<exists>st''. write_all q st = Inr st'' \<and>
           samples_seen st'' = samples_seen st + sum_list (map num_sample_sets q) \<and>
           samples_seen st \<le> samples_seen st''))"
proof -
  note f = plotter_ok_facts[OF assms(1)]
  from write_block_slots[OF f(1) f(2) f(6) assms(2)] obtain st' where
    wr: "write_block sd st = Inr st'"
    and seen: "samples_seen st' = samples_seen st + num_sample_sets sd"
    and cells: "\<forall>c<length (window_buffer st).
           (\<forall>i<num_sample_sets sd.
              window_buffer st' ! c ! ((samples_seen st + i) mod (sample_rate st * buffer_size st))
                = Some (block_row sd c ! i)) \<and>
           (\<forall>i. num_sample_sets sd \<le> i \<and> i < num_sample_sets sd + white_out st \<longrightarrow>
              window_buffer st' ! c ! ((samples_seen st + i) mod (sample_rate st * buffer_size st))
                = None) \<and>
           (\<forall>q<sample_rate st * buffer_size st.
              (\<forall>i<num_sample_sets sd + white_out st.
                 q \<noteq> (samples_seen st + i) mod (sample_rate st * buffer_size st)) \<longrightarrow>
              window_buffer st' ! c ! q = window_buffer st ! c ! q)"
    by blast
  have ok: "plotter_ok st'" using assms(1) wr by (rule plotter_ok_write_block)
  have one: "\<exists>st'. write_block sd st = Inr st' \<and>
        samples_seen st' = samples_seen st + num_sample_sets sd \<and>
        plotter_ok st' \<and>
        (\<forall>c<length (window_buffer st).
           (\<forall>i<num_sample_sets sd.
              window_buffer st' ! c ! ((samples_seen st + i) mod (sample_rate st * buffer_size st))
                = Some (block_row sd c ! i)) \<and>
           (\<forall>i. num_sample_sets sd \<le> i \<and> i < num_sample_sets sd + white_out st \<longrightarrow>
              window_buffer st' ! c ! ((samples_seen st + i) mod (sample_rate st * buffer_size st))
                = None) \<and>
           (\<forall>q<sample_rate st * buffer_size st.
              (\<forall>i<num_sample_sets sd + white_out st.
                 q \<noteq> (samples_seen st + i) mod (sample_rate st * buffer_size st)) \<longrightarrow>
              window_buffer st' ! c ! q = window_buffer st ! c ! q))"
    using wr seen ok cells by (intro exI[of _ st'] conjI)
  have many: "\<forall>q. list_all (block_fits (length (window_buffer st)) (white_out st)
                      (sample_rate st * buffer_size st)) q \<longrightarrow>
        (\<exists>st''. write_all q st = Inr st'' \<and>
           samples_seen st'' = samples_seen st + sum_list (map num_sample_sets q) \<and>
           samples_seen st \<le> samples_seen st'')"
  proof -
    have "\<exists>st''. write_all q st = Inr st'' \<and>
           samples_seen st'' = samples_seen st + sum_list (map num_sample_sets q) \<and>
           samples_seen st \<le> samples_seen st''"
      if fits: "list_all (block_fits (length (window_buffer st)) (white_out st)
                      (sample_rate st * buffer_size st)) q" for q
    proof -
      from write_all_seen[OF f(1) f(2) f(6) fits] obtain st'' where
        "write_all q st = Inr st''"
        "samples_seen st'' = samples_seen st + sum_list (map num_sample_sets q)"
        by blast
      then show ?thesis by (intro exI[of _ st'']) simp
    qed
    then show ?thesis by blast
  qed
  have wo: "white_out st = (window_size st * sample_rate st * 4) div 100"
    by (simp add: white_out_def)
  from wo one many show ?thesis by (intro conjI)
qed

lemma initUI_1000_ok: "plotter_ok (initUI 1000 2 :: nat plotter)"
  by (rule plotter_ok_initUI) (simp add: device_rates_def)

theorem write_block_effect_witness:
  "white_out (initUI 1000 2 :: nat plotter) = 200 \<and>
   (\<exists>st'. write_block
            \<lparr> num_samples_per_sample_set = 2, num_sample_sets = 3,
              samples = [10, 11, 12, 13, 14, 15] \<rparr> (initUI 1000 2 :: nat plotter) = Inr st' \<and>
          samples_seen st' = 3 \<and>
          window_buffer st' ! 0 ! 2 = Some 14 \<and>
          window_buffer st' ! 1 ! 202 = None)"
proof -
  let ?st = "initUI 1000 2 :: nat plotter"
  let ?sd = "\<lparr> num_samples_per_sample_set = 2, num_sample_sets = 3,
              samples = [10, 11, 12, 13, 14, 15 :: nat] \<rparr>"
  have w: "white_out ?st = 200" by (simp add: white_out_def initUI_def)
  have s0: "samples_seen ?st = 0" and mm: "sample_rate ?st * buffer_size ?st = 10000"
    and n: "length (window_buffer ?st) = 2"
    by (simp_all add: initUI_def)
  from write_block_effect[OF initUI_1000_ok example_block_fits] obtain st' where
    wr: "write_block ?sd ?st = Inr st'"
    and seen: "samples_seen st' = samples_seen ?st + num_sample_sets ?sd"
    and cells: "\<forall>c<length (window_buffer ?st).
           (\<forall>i<num_sample_sets ?sd.
              window_buffer st' ! c ! ((samples_seen ?st + i) mod (sample_rate ?st * buffer_size ?st))
                = Some (block_row ?sd c ! i)) \<and>
           (\<forall>i. num_sample_sets ?sd \<le> i \<and> i < num_sample_sets ?sd + white_out ?st \<longrightarrow>
              window_buffer st' ! c ! ((samples_seen ?st + i) mod (sample_rate ?st * buffer_size ?st))
                = None) \<and>
           (\<forall>q<sample_rate ?st * buffer_size ?st.
              (\<forall>i<num_sample_sets ?sd + white_out ?st.
                 q \<noteq> (samples_seen ?st + i) mod (sample_rate ?st * buffer_size ?st)) \<longrightarrow>
              window_buffer st' ! c ! q = window_buffer ?st ! c ! q)"
    by blast
  have c0: "0 < length (window_buffer ?st)" and c1: "1 < length (window_buffer ?st)"
    using n by simp_all
  have i2: "2 < num_sample_sets ?sd" by simp
  have i202: "num_sample_sets ?sd \<le> 202 \<and> 202 < num_sample_sets ?sd + white_out ?st"
    by (simp add: w)
  from cells c0 i2
  have "window_buffer st' ! 0 ! ((samples_seen ?st + 2) mod (sample_rate ?st * buffer_size ?st))
                = Some (block_row ?sd 0 ! 2)"
    by blast
  then have "window_buffer st' ! 0 ! Suc (Suc 0) = Some 14"
    by (simp add: s0 mm block_row_def)
  then have a: "window_buffer st' ! 0 ! 2 = Some 14"
    by (simp only: numeral_2_eq_2)
  from cells c1 i202
  have "window_buffer st' ! 1 ! ((samples_seen ?st + 202) mod (sample_rate ?st * buffer_size ?st))
                = None"
    by blast
  then have b: "window_buffer st' ! 1 ! 202 = None"
    by (simp add: s0 mm)
  have s3: "samples_seen st' = 3" using seen by (simp add: s0)
  from w wr s3 a b show ?thesis by blast
qed

section \<open>The length of a rendered slice on the states of the program\<close>

text \<open>
  Claim C4. On every state that the program reaches, whatever was written so far,
  \<^verbatim>\<open>render_slice\<close> returns one row per channel, and every row has exactly
  \<open>window_size * sample_rate / downsampling_factor\<close> cells: the factor divides the window
  length, and the number of cells times the factor is the window length. Every cell of the
  result is one cell of the buffer row, taken as it is, so a cell that holds \<open>nan\<close> (a
  position not yet written, or white-out) is rendered as \<open>nan\<close>, and a row that nothing was
  written to is rendered as \<open>nan\<close> throughout.
\<close>

theorem render_slice_fixed_length:
  assumes "plotter_ok st"
  shows "\<exists>out. render_slice st = Inr out \<and> length out = length (window_buffer st) \<and>
     downsampling_factor st dvd window_size st * sample_rate st \<and>
     (\<forall>c<length (window_buffer st).
        length (out ! c) = window_size st * sample_rate st div downsampling_factor st \<and>
        length (out ! c) * downsampling_factor st = window_size st * sample_rate st \<and>
        (\<forall>p<length (out ! c).
           out ! c ! p = window_buffer st ! c ! render_slot st (p * downsampling_factor st)) \<and>
        (list_all (\<lambda>x. x = None) (window_buffer st ! c) \<longrightarrow> list_all (\<lambda>x. x = None) (out ! c)))"
proof -
  let ?W = "window_size st * sample_rate st"
  let ?d = "downsampling_factor st"
  note f = plotter_ok_facts[OF assms]
  have W2: "2 \<le> ?W" using f(3) by linarith
  from render_slice_lengths[OF f(1) f(2) W2 f(4)] obtain out where
    r: "render_slice st = Inr out" and n: "length out = length (window_buffer st)"
    and cells: "\<forall>c<length (window_buffer st).
        length (out ! c) = (?W + ?d - 1) div ?d \<and>
        (?d dvd ?W \<longrightarrow> length (out ! c) = ?W div ?d) \<and>
        (\<forall>p<length (out ! c). out ! c ! p = window_buffer st ! c ! render_slot st (p * ?d)) \<and>
        (list_all (\<lambda>x. x = None) (window_buffer st ! c) \<longrightarrow> list_all (\<lambda>x. x = None) (out ! c))"
    by blast
  have "length (out ! c) = ?W div ?d \<and> length (out ! c) * ?d = ?W \<and>
        (\<forall>p<length (out ! c). out ! c ! p = window_buffer st ! c ! render_slot st (p * ?d)) \<and>
        (list_all (\<lambda>x. x = None) (window_buffer st ! c) \<longrightarrow> list_all (\<lambda>x. x = None) (out ! c))"
    if c: "c < length (window_buffer st)" for c
  proof -
    from cells c f(5) have len: "length (out ! c) = ?W div ?d" by blast
    have "?W div ?d * ?d = ?W" using f(5) by (rule dvd_div_mult_self)
    then have "length (out ! c) * ?d = ?W" by (simp only: len)
    with cells c len show ?thesis by blast
  qed
  with r n f(5) show ?thesis by blast
qed

theorem render_slice_fixed_length_witness:
  "\<exists>out. render_slice (initUI 1000 2 :: nat plotter) = Inr out \<and> length out = 2 \<and>
     length (out ! 0) = 2500 \<and> list_all (\<lambda>x. x = None) (out ! 0) \<and>
     length (out ! 1) = 2500 \<and> list_all (\<lambda>x. x = None) (out ! 1)"
proof -
  let ?st = "initUI 1000 2 :: nat plotter"
  have n: "length (window_buffer ?st) = 2" by (simp add: initUI_def)
  have blank: "list_all (\<lambda>x. x = None) (window_buffer ?st ! 0)"
    "list_all (\<lambda>x. x = None) (window_buffer ?st ! 1)"
    by (simp_all add: initUI_def list_all_iff numeral_2_eq_2)
  have len: "window_size ?st * sample_rate ?st div downsampling_factor ?st = 2500"
    by (simp add: initUI_def)
  from render_slice_fixed_length[OF initUI_1000_ok] obtain out where
    r: "render_slice ?st = Inr out" and l: "length out = length (window_buffer ?st)"
    and cells: "\<forall>c<length (window_buffer ?st).
        length (out ! c) = window_size ?st * sample_rate ?st div downsampling_factor ?st \<and>
        length (out ! c) * downsampling_factor ?st = window_size ?st * sample_rate ?st \<and>
        (\<forall>p<length (out ! c).
           out ! c ! p = window_buffer ?st ! c ! render_slot ?st (p * downsampling_factor ?st)) \<and>
        (list_all (\<lambda>x. x = None) (window_buffer ?st ! c) \<longrightarrow> list_all (\<lambda>x. x = None) (out ! c))"
    by blast
  have c0: "0 < length (window_buffer ?st)" and c1: "1 < length (window_buffer ?st)"
    using n by simp_all
  from cells c0 len blank(1) have 0: "length (out ! 0) = 2500" "list_all (\<lambda>x. x = None) (out ! 0)"
    by metis+
  from cells c1 len blank(2) have 1: "length (out ! 1) = 2500" "list_all (\<lambda>x. x = None) (out ! 1)"
    by metis+
  from r l n 0 1 show ?thesis by (intro exI[of _ out]) simp
qed

section \<open>The downsampling factor\<close>

text \<open>
  Claim C10, amended. Below 500 samples per second \<^verbatim>\<open>int(sample_rate / 500)\<close> is 0. With a
  factor of 0 no frame is ever rendered: \<^verbatim>\<open>render_slice\<close> raises, so the first pass of the loop
  body out of lag mode raises. At the rates 1 to 499 the rendering of the buffer that \<^verbatim>\<open>initUI\<close>
  makes raises the \<^verbatim>\<open>ValueError\<close> of the slice with step 0, and so does the rendering of every
  buffer of that shape with a window of two samples or more; in the first pass this happens
  after the block was written, when the write returns, and at the rates 5 to 499 the write of
  every block that fits the ring returns. At the rate 0 the window is empty, and what raises is
  the search for the split, an \<^verbatim>\<open>IndexError\<close>, before the slice is reached. From 500 samples per
  second on the factor is positive, the slice with that step is defined, and the rendering of
  such a buffer returns a frame.
\<close>

theorem downsampling_factor_below_500:
  "(rate < 500 \<longrightarrow> downsampling_factor (initUI rate C :: 'a plotter) = 0) \<and>
   (500 \<le> rate \<longrightarrow> 0 < downsampling_factor (initUI rate C :: 'a plotter)) \<and>
   (1 \<le> rate \<and> rate < 500 \<longrightarrow> render_slice (initUI rate C :: 'a plotter) = Inl ValueError) \<and>
   render_slice (initUI 0 C :: 'a plotter) = Inl IndexError \<and>
   (5 \<le> rate \<and> rate < 500 \<and> \<not> lag_update lag qsize \<and>
    block_fits (length (window_buffer (initUI rate C :: 'a plotter)))
      (white_out (initUI rate C :: 'a plotter))
      (sample_rate (initUI rate C :: 'a plotter) * buffer_size (initUI rate C :: 'a plotter)) sd
      \<longrightarrow> (\<exists>st'. write_block sd (initUI rate C :: 'a plotter) = Inr st') \<and>
          update_samples_body lag qsize sd (initUI rate C :: 'a plotter) = Inl ValueError) \<and>
   (downsampling_factor (st :: 'a plotter) = 0 \<longrightarrow>
      (\<exists>e. render_slice st = Inl e) \<and>
      (\<forall>a. slice_step (a :: 'a option list list) (downsampling_factor st) = Inl ValueError) \<and>
      (\<not> lag_update lag qsize \<longrightarrow> (\<exists>e. update_samples_body lag qsize sd st = Inl e)) \<and>
      (0 < sample_rate st * buffer_size st \<and> wf_buffer st \<and>
       2 \<le> window_size st * sample_rate st \<longrightarrow>
         render_slice st = Inl ValueError \<and>
         (\<not> lag_update lag qsize \<longrightarrow>
            (\<forall>st'. write_block sd st = Inr st' \<longrightarrow>
               update_samples_body lag qsize sd st = Inl ValueError)))) \<and>
   (0 < downsampling_factor st \<longrightarrow>
      (\<forall>a. slice_step (a :: 'a option list list) (downsampling_factor st) =
            Inr (map (stride (downsampling_factor st)) a)) \<and>
      (0 < sample_rate st * buffer_size st \<and> wf_buffer st \<and>
       2 \<le> window_size st * sample_rate st \<longrightarrow> (\<exists>out. render_slice st = Inr out)))"
proof -
  let ?i = "initUI rate C :: 'a plotter"
  have low: "rate < 500 \<longrightarrow> downsampling_factor ?i = 0"
    by (simp add: initUI_def)
  have high: "500 \<le> rate \<longrightarrow> 0 < downsampling_factor ?i"
    by (simp add: initUI_def div_greater_zero_iff)
  have mid: "1 \<le> rate \<and> rate < 500 \<longrightarrow> render_slice ?i = Inl ValueError"
  proof
    assume r: "1 \<le> rate \<and> rate < 500"
    show "render_slice ?i = Inl ValueError"
      using r wf_buffer_initUI[of rate C]
      by (intro render_slice_zero_step_wf) (simp_all add: initUI_def)
  qed
  have none: "render_slice (initUI 0 C :: 'a plotter) = Inl IndexError"
    by (simp add: render_slice_def window_indices_def white_out_def initUI_def)
  have pass: "5 \<le> rate \<and> rate < 500 \<and> \<not> lag_update lag qsize \<and>
      block_fits (length (window_buffer ?i)) (white_out ?i)
        (sample_rate ?i * buffer_size ?i) sd
      \<longrightarrow> (\<exists>st'. write_block sd ?i = Inr st') \<and>
          update_samples_body lag qsize sd ?i = Inl ValueError"
  proof
    assume a: "5 \<le> rate \<and> rate < 500 \<and> \<not> lag_update lag qsize \<and>
      block_fits (length (window_buffer ?i)) (white_out ?i)
        (sample_rate ?i * buffer_size ?i) sd"
    have d: "downsampling_factor ?i = 0" using a by (simp add: initUI_def)
    have m: "0 < sample_rate ?i * buffer_size ?i" using a by (simp add: initUI_def)
    have wf: "wf_buffer ?i" by (rule wf_buffer_initUI)
    have W: "2 \<le> window_size ?i * sample_rate ?i" using a by (simp add: initUI_def)
    have "100 div 100 \<le> (window_size ?i * sample_rate ?i * 4) div 100"
      using a by (intro div_le_mono) (simp add: initUI_def)
    then have w: "0 < white_out ?i" by (simp add: white_out_def)
    from a have fits: "block_fits (length (window_buffer ?i)) (white_out ?i)
        (sample_rate ?i * buffer_size ?i) sd" by blast
    from a have l: "\<not> lag_update lag qsize" by blast
    from write_block_slots[OF m wf w fits] obtain st' where wr: "write_block sd ?i = Inr st'"
      by blast
    have "update_samples_body lag qsize sd ?i = Inl ValueError"
      using d l m wf W wr by (rule update_samples_body_zero_step_wf)
    with wr show "(\<exists>st'. write_block sd ?i = Inr st') \<and>
          update_samples_body lag qsize sd ?i = Inl ValueError"
      by blast
  qed
  have zero: "downsampling_factor st = 0 \<longrightarrow>
      (\<exists>e. render_slice st = Inl e) \<and>
      (\<forall>a. slice_step (a :: 'a option list list) (downsampling_factor st) = Inl ValueError) \<and>
      (\<not> lag_update lag qsize \<longrightarrow> (\<exists>e. update_samples_body lag qsize sd st = Inl e)) \<and>
      (0 < sample_rate st * buffer_size st \<and> wf_buffer st \<and>
       2 \<le> window_size st * sample_rate st \<longrightarrow>
         render_slice st = Inl ValueError \<and>
         (\<not> lag_update lag qsize \<longrightarrow>
            (\<forall>st'. write_block sd st = Inr st' \<longrightarrow>
               update_samples_body lag qsize sd st = Inl ValueError)))"
    using render_slice_zero_step[of st] update_samples_body_zero_step[of st lag qsize sd]
      render_slice_zero_step_wf[of st] update_samples_body_zero_step_wf[of st lag qsize sd]
    by (simp add: slice_step_def)
  have pos: "0 < downsampling_factor st \<longrightarrow>
      (\<forall>a. slice_step (a :: 'a option list list) (downsampling_factor st) =
            Inr (map (stride (downsampling_factor st)) a)) \<and>
      (0 < sample_rate st * buffer_size st \<and> wf_buffer st \<and>
       2 \<le> window_size st * sample_rate st \<longrightarrow> (\<exists>out. render_slice st = Inr out))"
    using render_slice_rows[of st] by (simp add: slice_step_def)
  from low high mid none pass zero pos show ?thesis by (intro conjI)
qed

theorem downsampling_factor_below_500_witness:
  "downsampling_factor (initUI 250 2 :: nat plotter) = 0 \<and>
   render_slice (initUI 250 2 :: nat plotter) = Inl ValueError \<and>
   (\<exists>st'. write_block
           \<lparr> num_samples_per_sample_set = 2, num_sample_sets = 3,
             samples = [10, 11, 12, 13, 14, 15] \<rparr> (initUI 250 2 :: nat plotter) = Inr st') \<and>
   update_samples_body False 1
           \<lparr> num_samples_per_sample_set = 2, num_sample_sets = 3,
             samples = [10, 11, 12, 13, 14, 15] \<rparr> (initUI 250 2 :: nat plotter)
     = Inl ValueError \<and>
   0 < downsampling_factor (initUI 1000 2 :: nat plotter) \<and>
   (\<exists>out. render_slice (initUI 1000 2 :: nat plotter) = Inr out)"
proof -
  let ?lo = "initUI 250 2 :: nat plotter"
  let ?hi = "initUI 1000 2 :: nat plotter"
  let ?sd = "\<lparr> num_samples_per_sample_set = 2, num_sample_sets = 3,
              samples = [10, 11, 12, 13, 14, 15 :: nat] \<rparr>"
  have lo: "(250::nat) < 500" "(1::nat) \<le> 250" "(5::nat) \<le> 250" "\<not> lag_update False 1"
    by (simp_all add: lag_update_def)
  have fits: "block_fits (length (window_buffer ?lo)) (white_out ?lo)
      (sample_rate ?lo * buffer_size ?lo) ?sd"
    by (simp add: block_fits_def initUI_def white_out_def)
  have hi: "(500::nat) \<le> 1000" "0 < sample_rate ?hi * buffer_size ?hi"
    "2 \<le> window_size ?hi * sample_rate ?hi"
    by (simp_all add: initUI_def)
  note a = downsampling_factor_below_500[where rate = 250 and C = 2 and st = ?lo
      and lag = False and qsize = 1 and sd = ?sd]
  note b = downsampling_factor_below_500[where rate = 1000 and C = 2 and st = ?hi
      and lag = False and qsize = 1 and sd = ?sd]
  from a lo have a0: "downsampling_factor ?lo = 0" by blast
  from a lo have a1: "render_slice ?lo = Inl ValueError" by blast
  from a lo fits have a2: "(\<exists>st'. write_block ?sd ?lo = Inr st') \<and>
      update_samples_body False 1 ?sd ?lo = Inl ValueError" by blast
  from b hi have b0: "0 < downsampling_factor ?hi" by blast
  from b b0 hi wf_buffer_initUI[of 1000 2] have b1: "\<exists>out. render_slice ?hi = Inr out" by blast
  from a0 a1 a2 b0 b1 show ?thesis by (intro conjI) blast+
qed

text \<open>
  The claim C10 as stated fails at the rate 0, which is below 500: the factor is 0, but the
  window is empty, the search for the split finds nothing and raises \<^verbatim>\<open>IndexError\<close> (line 721)
  before the slice with step 0 is reached; a pass over a block raises that error already in
  the write, so no frame is attempted. At the rate 4 the white-out is empty, and a pass over a
  block of two samples raises in the write, before anything is rendered.
\<close>

theorem zero_step_not_reached_counterexample:
  "downsampling_factor (initUI 0 1 :: nat plotter) = 0 \<and>
   first_index
     (\<lambda>i. np_mod i (int (sample_rate (initUI 0 1 :: nat plotter)
                            * window_size (initUI 0 1 :: nat plotter))) = 1)
     (window_indices (initUI 0 1 :: nat plotter)) = None \<and>
   render_slice (initUI 0 1 :: nat plotter) = Inl IndexError \<and>
   render_slice (initUI 0 1 :: nat plotter) \<noteq> Inl ValueError \<and>
   write_block \<lparr> num_samples_per_sample_set = 1, num_sample_sets = 1, samples = [10] \<rparr>
     (initUI 0 1 :: nat plotter) = Inl IndexError \<and>
   update_samples_body False 1
     \<lparr> num_samples_per_sample_set = 1, num_sample_sets = 1, samples = [10] \<rparr>
     (initUI 0 1 :: nat plotter) = Inl IndexError \<and>
   downsampling_factor (initUI 4 1 :: nat plotter) = 0 \<and>
   write_block \<lparr> num_samples_per_sample_set = 1, num_sample_sets = 2, samples = [10, 11] \<rparr>
     (initUI 4 1 :: nat plotter) = Inl ValueError"
  by code_simp

end
